theory Spec2Isabelle
  imports Complex_Main "HOL-Library.Word" "HOL-Library.Sublist"
begin

section \<open>Errors\<close>

text \<open>
  The Python exceptions the modelled functions can raise.  \<open>ValueError\<close> is what
  \<^verbatim>\<open>math.log\<close> raises on a non-positive argument, \<open>KeyError\<close> a missing dictionary key,
  \<open>TypeError\<close> subscripting \<^verbatim>\<open>None\<close>.
\<close>

datatype error = ValueError | KeyError | TypeError

section \<open>mercator.py\<close>

text \<open>
  Floating-point numbers are modelled as real numbers: rounding, overflow of
  \<^verbatim>\<open>math.exp\<close> and the finite value of \<^verbatim>\<open>math.tan\<close> at the float nearest to \<open>\<pi>/2\<close> are
  not represented.
\<close>

definition R :: real where
  "R = 6371"

definition proj_mercator :: "real \<Rightarrow> real \<Rightarrow> error + (real \<times> real)" where
  "proj_mercator lat lng =
     (let x = R * lng * pi / 180;
          t = tan (pi / 4 + lat / 2 * pi / 180)
      in if t \<le> 0 then Inl ValueError
         else Inr (x, R * ln t))"

definition invert_mercator :: "real \<Rightarrow> real \<Rightarrow> real \<times> real" where
  "invert_mercator x y =
     (let lng = (x * 180 / pi) / R;
          res_log = y / R;
          res_tan = exp res_log;
          res_inner = arctan res_tan;
          lat = 360 * (res_inner - pi / 4) / pi
      in (lat, lng))"

section \<open>webmercatorcell.py\<close>

text \<open>
  The dataclass \<^verbatim>\<open>WebMercatorCell\<close>.  Its fields \<^verbatim>\<open>level, i, j, x0, x1, y0, y1\<close> carry the
  prefix \<open>cell_\<close> here; the four child references \<^verbatim>\<open>cell_0 .. cell_3\<close> keep their names,
  with \<^verbatim>\<open>None\<close> as \<open>None\<close>.  Methods that mutate \<^verbatim>\<open>self\<close> return the updated cell.
\<close>

datatype WebMercatorCell =
  WebMercatorCell
    (cell_level: int) (cell_i: int) (cell_j: int)
    (cell_x0: real) (cell_x1: real) (cell_y0: real) (cell_y1: real)
    (cell_0: "WebMercatorCell option") (cell_1: "WebMercatorCell option")
    (cell_2: "WebMercatorCell option") (cell_3: "WebMercatorCell option")

fun flatten :: "WebMercatorCell \<Rightarrow> WebMercatorCell list" where
  "flatten (WebMercatorCell l i j x0 x1 y0 y1 c0 c1 c2 c3) =
     [WebMercatorCell l i j x0 x1 y0 y1 c0 c1 c2 c3]
     @ (case c0 of None \<Rightarrow> [] | Some c \<Rightarrow> flatten c)
     @ (case c1 of None \<Rightarrow> [] | Some c \<Rightarrow> flatten c)
     @ (case c2 of None \<Rightarrow> [] | Some c \<Rightarrow> flatten c)
     @ (case c3 of None \<Rightarrow> [] | Some c \<Rightarrow> flatten c)"

text \<open>
  The candidate for one child slot: the child already there, or a new cell without
  children (line 40, the operand of \<^verbatim>\<open>or\<close>; a cell object is always truthy).
\<close>

definition candidate ::
  "WebMercatorCell option \<Rightarrow> int \<Rightarrow> int \<Rightarrow> int \<Rightarrow> real \<Rightarrow> real \<Rightarrow> real \<Rightarrow> real \<Rightarrow> WebMercatorCell" where
  "candidate slot l i j x0 x1 y0 y1 =
     (case slot of
        Some c \<Rightarrow> c
      | None \<Rightarrow> WebMercatorCell l i j x0 x1 y0 y1 None None None None)"

function conditional_recursive_subdivide ::
  "(WebMercatorCell \<Rightarrow> bool) \<Rightarrow> int \<Rightarrow> WebMercatorCell \<Rightarrow> WebMercatorCell" where
  "conditional_recursive_subdivide condition max_depth self =
     (if cell_level self \<ge> max_depth then self
      else
        let xmid = (cell_x0 self + cell_x1 self) / 2;
            ymid = (cell_y0 self + cell_y1 self) / 2;
            k0 = candidate (cell_0 self) (cell_level self + 1) (2 * cell_i self) (2 * cell_j self)
                   (cell_x0 self) xmid (cell_y0 self) ymid;
            r0 = (if condition k0
                  then Some (conditional_recursive_subdivide condition max_depth k0)
                  else cell_0 self);
            k1 = candidate (cell_1 self) (cell_level self + 1) (2 * cell_i self + 1) (2 * cell_j self)
                   xmid (cell_x1 self) (cell_y0 self) ymid;
            r1 = (if condition k1
                  then Some (conditional_recursive_subdivide condition max_depth k1)
                  else cell_1 self);
            k2 = candidate (cell_2 self) (cell_level self + 1) (2 * cell_i self) (2 * cell_j self + 1)
                   (cell_x0 self) xmid ymid (cell_y1 self);
            r2 = (if condition k2
                  then Some (conditional_recursive_subdivide condition max_depth k2)
                  else cell_2 self);
            k3 = candidate (cell_3 self) (cell_level self + 1) (2 * cell_i self + 1) (2 * cell_j self + 1)
                   xmid (cell_x1 self) ymid (cell_y1 self);
            r3 = (if condition k3
                  then Some (conditional_recursive_subdivide condition max_depth k3)
                  else cell_3 self)
        in WebMercatorCell (cell_level self) (cell_i self) (cell_j self)
             (cell_x0 self) (cell_x1 self) (cell_y0 self) (cell_y1 self) r0 r1 r2 r3)"
  by pat_completeness auto

termination conditional_recursive_subdivide
proof (relation "measures [\<lambda>(c, d, s). length (flatten s), \<lambda>(c, d, s). nat (d - cell_level s)]")
  show "wf (measures [\<lambda>(c :: WebMercatorCell \<Rightarrow> bool, d, s). length (flatten s),
                      \<lambda>(c, d, s). nat (d - cell_level s)])"
    by simp
qed (case_tac self; auto simp: candidate_def split: option.splits)+

definition full_recursive_subdivide :: "int \<Rightarrow> WebMercatorCell \<Rightarrow> WebMercatorCell" where
  "full_recursive_subdivide max_depth self =
     conditional_recursive_subdivide (\<lambda>_. True) max_depth self"

text \<open>
  \<^verbatim>\<open>generate_webmercator_grid\<close>.  A failure of one of the four calls of
  \<^verbatim>\<open>proj_mercator\<close> is passed on.
\<close>

definition generate_webmercator_grid :: "int \<Rightarrow> error + WebMercatorCell" where
  "generate_webmercator_grid refine_to_level =
     (case proj_mercator 0 (- 180) of Inl e \<Rightarrow> Inl e | Inr (x0, _) \<Rightarrow>
      case proj_mercator 0 180 of Inl e \<Rightarrow> Inl e | Inr (x1, _) \<Rightarrow>
        let (lat0, lng0) = invert_mercator 0 x0;
            (lat1, lng1) = invert_mercator 0 x1
        in
      case proj_mercator lat1 (- 180) of Inl e \<Rightarrow> Inl e | Inr (x0, y0) \<Rightarrow>
      case proj_mercator lat0 180 of Inl e \<Rightarrow> Inl e | Inr (x1, y1) \<Rightarrow>
        let root = WebMercatorCell 0 0 0 x0 x1 y0 y1 None None None None
        in Inr (full_recursive_subdivide refine_to_level root))"

text \<open>
  The checker that \<^verbatim>\<open>create_download_list\<close> passes to
  \<^verbatim>\<open>conditional_recursive_subdivide\<close>
  (\<^verbatim>\<open>lambda cell: cell.level <= outside_maxlevel or intersects_with_some(cell)\<close>).
\<close>

definition checker :: "int \<Rightarrow> (WebMercatorCell \<Rightarrow> bool) \<Rightarrow> WebMercatorCell \<Rightarrow> bool" where
  "checker outside_maxlevel intersects_with_some cell =
     (cell_level cell \<le> outside_maxlevel \<or> intersects_with_some cell)"

definition intersects_nothing :: "WebMercatorCell \<Rightarrow> bool" where
  "intersects_nothing cell = False"

text \<open>
  The structural invariant of a quadtree: at every node \<open>y1 < y0\<close>, and every child that
  is present is one level deeper, has the doubled column and row index plus its quadrant
  offset, and has the quadrant of the parent's box cut at the midpoints.
\<close>

fun quadtree_inv :: "WebMercatorCell \<Rightarrow> bool" where
  "quadtree_inv (WebMercatorCell l i j x0 x1 y0 y1 c0 c1 c2 c3) =
     (y1 < y0
      \<and> (case c0 of None \<Rightarrow> True | Some c \<Rightarrow>
           cell_level c = l + 1 \<and> cell_i c = 2 * i \<and> cell_j c = 2 * j
           \<and> cell_x0 c = x0 \<and> cell_x1 c = (x0 + x1) / 2
           \<and> cell_y0 c = y0 \<and> cell_y1 c = (y0 + y1) / 2 \<and> quadtree_inv c)
      \<and> (case c1 of None \<Rightarrow> True | Some c \<Rightarrow>
           cell_level c = l + 1 \<and> cell_i c = 2 * i + 1 \<and> cell_j c = 2 * j
           \<and> cell_x0 c = (x0 + x1) / 2 \<and> cell_x1 c = x1
           \<and> cell_y0 c = y0 \<and> cell_y1 c = (y0 + y1) / 2 \<and> quadtree_inv c)
      \<and> (case c2 of None \<Rightarrow> True | Some c \<Rightarrow>
           cell_level c = l + 1 \<and> cell_i c = 2 * i \<and> cell_j c = 2 * j + 1
           \<and> cell_x0 c = x0 \<and> cell_x1 c = (x0 + x1) / 2
           \<and> cell_y0 c = (y0 + y1) / 2 \<and> cell_y1 c = y1 \<and> quadtree_inv c)
      \<and> (case c3 of None \<Rightarrow> True | Some c \<Rightarrow>
           cell_level c = l + 1 \<and> cell_i c = 2 * i + 1 \<and> cell_j c = 2 * j + 1
           \<and> cell_x0 c = (x0 + x1) / 2 \<and> cell_x1 c = x1
           \<and> cell_y0 c = (y0 + y1) / 2 \<and> cell_y1 c = y1 \<and> quadtree_inv c))"

text \<open>
  The cell tried for child slot \<open>k\<close> of \<open>self\<close> (\<open>k = 0, 1, 2, 3\<close>): the \<open>k\<close>-th tuple of
  the list the loop in \<^verbatim>\<open>conditional_recursive_subdivide\<close> runs over, made into a
  candidate.
\<close>

definition kid :: "nat \<Rightarrow> WebMercatorCell \<Rightarrow> WebMercatorCell" where
  "kid k self =
    (let xmid = (cell_x0 self + cell_x1 self) / 2;
         ymid = (cell_y0 self + cell_y1 self) / 2
     in if k = 0 then
          candidate (cell_0 self) (cell_level self + 1) (2 * cell_i self) (2 * cell_j self)
            (cell_x0 self) xmid (cell_y0 self) ymid
        else if k = 1 then
          candidate (cell_1 self) (cell_level self + 1) (2 * cell_i self + 1) (2 * cell_j self)
            xmid (cell_x1 self) (cell_y0 self) ymid
        else if k = 2 then
          candidate (cell_2 self) (cell_level self + 1) (2 * cell_i self) (2 * cell_j self + 1)
            (cell_x0 self) xmid ymid (cell_y1 self)
        else
          candidate (cell_3 self) (cell_level self + 1) (2 * cell_i self + 1) (2 * cell_j self + 1)
            xmid (cell_x1 self) ymid (cell_y1 self))"




text \<open>
  \<^verbatim>\<open>conditional_recursive_subdivide\<close> once more, with the computation of the midpoint
  as a parameter, so that it can be read with exact and with floating-point arithmetic;
  \<open>kid_with\<close> is to it what \<open>kid\<close> is to \<open>conditional_recursive_subdivide\<close>.
  \<open>quadrant_inv midpoint\<close> is the part of the structural invariant that concerns
  addresses and boxes: every child that is present is one level deeper, has the doubled
  column and row index plus its quadrant offset, and has the quadrant of the parent's
  box cut at the midpoints as \<open>midpoint\<close> computes them.
\<close>

function conditional_recursive_subdivide_with ::
  "(real \<Rightarrow> real \<Rightarrow> real) \<Rightarrow> (WebMercatorCell \<Rightarrow> bool) \<Rightarrow> int \<Rightarrow> WebMercatorCell
     \<Rightarrow> WebMercatorCell" where
  "conditional_recursive_subdivide_with midpoint condition max_depth self =
     (if cell_level self \<ge> max_depth then self
      else
        let xmid = midpoint (cell_x0 self) (cell_x1 self);
            ymid = midpoint (cell_y0 self) (cell_y1 self);
            k0 = candidate (cell_0 self) (cell_level self + 1) (2 * cell_i self) (2 * cell_j self)
                   (cell_x0 self) xmid (cell_y0 self) ymid;
            r0 = (if condition k0
                  then Some (conditional_recursive_subdivide_with midpoint condition max_depth k0)
                  else cell_0 self);
            k1 = candidate (cell_1 self) (cell_level self + 1) (2 * cell_i self + 1) (2 * cell_j self)
                   xmid (cell_x1 self) (cell_y0 self) ymid;
            r1 = (if condition k1
                  then Some (conditional_recursive_subdivide_with midpoint condition max_depth k1)
                  else cell_1 self);
            k2 = candidate (cell_2 self) (cell_level self + 1) (2 * cell_i self) (2 * cell_j self + 1)
                   (cell_x0 self) xmid ymid (cell_y1 self);
            r2 = (if condition k2
                  then Some (conditional_recursive_subdivide_with midpoint condition max_depth k2)
                  else cell_2 self);
            k3 = candidate (cell_3 self) (cell_level self + 1) (2 * cell_i self + 1) (2 * cell_j self + 1)
                   xmid (cell_x1 self) ymid (cell_y1 self);
            r3 = (if condition k3
                  then Some (conditional_recursive_subdivide_with midpoint condition max_depth k3)
                  else cell_3 self)
        in WebMercatorCell (cell_level self) (cell_i self) (cell_j self)
             (cell_x0 self) (cell_x1 self) (cell_y0 self) (cell_y1 self) r0 r1 r2 r3)"
  by pat_completeness auto

termination conditional_recursive_subdivide_with
proof (relation "measures [\<lambda>(m, c, d, s). length (flatten s),
                           \<lambda>(m, c, d, s). nat (d - cell_level s)]")
  show "wf (measures [\<lambda>(m :: real \<Rightarrow> real \<Rightarrow> real, c :: WebMercatorCell \<Rightarrow> bool, d, s).
                        length (flatten s),
                      \<lambda>(m, c, d, s). nat (d - cell_level s)])"
    by simp
qed (case_tac self; auto simp: candidate_def split: option.splits)+



text \<open>\<open>is_child d t\<close>: the cell \<open>d\<close> is referenced by one of the four child slots of \<open>t\<close>.\<close>

definition is_child :: "WebMercatorCell \<Rightarrow> WebMercatorCell \<Rightarrow> bool" where
  "is_child d t =
     (cell_0 t = Some d \<or> cell_1 t = Some d \<or> cell_2 t = Some d \<or> cell_3 t = Some d)"

text \<open>
  \<^verbatim>\<open>to_geojson\<close>: the cell's box as a GeoJSON polygon feature.  GeoJSON coordinates are
  nested arrays of positions.
\<close>

datatype Coords = Pos real real | Coords "Coords list"

datatype Geometry = Geometry (gtype: string) (coordinates: Coords)

datatype Feature = Feature (geometry: "Geometry option")

definition Polygon :: "Coords \<Rightarrow> Geometry" where
  "Polygon cs = Geometry ''Polygon'' cs"

definition to_geojson :: "WebMercatorCell \<Rightarrow> Feature" where
  "to_geojson self =
     (let (lat0, lng0) = invert_mercator (cell_x0 self) (cell_y0 self);
          (lat1, lng1) = invert_mercator (cell_x1 self) (cell_y1 self)
      in Feature (Some (Polygon (Coords [Coords
           [Pos lng0 lat0, Pos lng1 lat0, Pos lng1 lat1, Pos lng0 lat1, Pos lng0 lat0]]))))"

section \<open>prune_empties.py\<close>

text \<open>
  The key under which a tile is written to the file of empty tiles and looked up again
  (\<^verbatim>\<open>EmptyChecker.__call__\<close>): the triple of level, column and row.
\<close>

definition tile_address :: "WebMercatorCell \<Rightarrow> int \<times> int \<times> int" where
  "tile_address cell = (cell_level cell, cell_i cell, cell_j cell)"

definition EmptyChecker :: "(int \<times> int \<times> int) set \<Rightarrow> WebMercatorCell \<Rightarrow> bool" where
  "EmptyChecker empty_set cell = (tile_address cell \<in> empty_set)"

section \<open>generate_list_of_empties.py\<close>

text \<open>
  The object that \<^verbatim>\<open>geojson.load\<close> has returned (line 34), as far as the function reads
  it: the member \<^verbatim>\<open>features\<close> (\<open>None\<close> when the object has no such key, as for a
  single feature or a geometry, where the subscript of line 35 raises \<^verbatim>\<open>KeyError\<close>), and
  of each feature its geometry (\<open>None\<close> for JSON \<^verbatim>\<open>null\<close>, whose subscripting raises
  \<^verbatim>\<open>TypeError\<close>).  What \<^verbatim>\<open>load\<close> itself raises, on text that is not JSON or on a
  feature collection without features, comes before and is not part of the model.
  turfpy's \<^verbatim>\<open>intersect\<close> is a parameter of the model, taken to return for every pair
  of features: \<open>intersect f g\<close> stands for \<^verbatim>\<open>intersect([f, g])\<close>.
\<close>

datatype GeoJSON = GeoJSON (features: "Feature list option")

text \<open>Line 35: the features whose geometry type contains \<^verbatim>\<open>'Polygon'\<close>.\<close>

fun polygon_features :: "Feature list \<Rightarrow> error + Feature list" where
  "polygon_features [] = Inr []"
| "polygon_features (feature # rest) =
     (case geometry feature of
        None \<Rightarrow> Inl TypeError
      | Some g \<Rightarrow>
          (case polygon_features rest of
             Inl e \<Rightarrow> Inl e
           | Inr ps \<Rightarrow> Inr (if sublist ''Polygon'' (gtype g) then feature # ps else ps)))"

text \<open>Lines 71 to 88: whether a cell of the highest level meets a clipped polygon.\<close>

definition does_intersect ::
  "(Feature \<Rightarrow> Feature \<Rightarrow> Feature option) \<Rightarrow> Feature list \<Rightarrow> WebMercatorCell \<Rightarrow> bool" where
  "does_intersect intersect polygons_clipped cell =
     (let (lat0, lng0) = invert_mercator (cell_x0 cell) (cell_y0 cell);
          (lat1, lng1) = invert_mercator (cell_x1 cell) (cell_y1 cell);
          polygon = to_geojson cell
      in if lat0 < - 60 then False
         else if lat1 > 60 then False
         else list_ex (\<lambda>f. intersect f polygon \<noteq> None) polygons_clipped)"

text \<open>Lines 48 to 92: the body of the loop over the intermediate cells.\<close>

definition classify_partition ::
  "(Feature \<Rightarrow> Feature \<Rightarrow> Feature option) \<Rightarrow> Feature list \<Rightarrow> int \<Rightarrow> WebMercatorCell
     \<Rightarrow> WebMercatorCell set \<Rightarrow> WebMercatorCell set" where
  "classify_partition intersect polygons max_level intermediate_cell empties =
     (let polygon = to_geojson intermediate_cell;
          polygons_clipped = List.map_filter (\<lambda>p. intersect p polygon) polygons;
          highest_level_cells =
            filter (\<lambda>v. cell_level v = max_level) (flatten intermediate_cell)
      in fold (\<lambda>cell empties.
                 if \<not> does_intersect intersect polygons_clipped cell
                 then insert cell empties else empties)
           highest_level_cells empties)"

text \<open>\<^verbatim>\<open>child in empties\<close> for a child reference that may be \<^verbatim>\<open>None\<close>.\<close>

definition in_empties :: "WebMercatorCell option \<Rightarrow> WebMercatorCell set \<Rightarrow> bool" where
  "in_empties child empties = (case child of None \<Rightarrow> False | Some c \<Rightarrow> c \<in> empties)"

text \<open>Lines 99 to 106: the body of the loop that goes up the hierarchy.\<close>

definition sweep_level ::
  "WebMercatorCell list \<Rightarrow> int \<Rightarrow> WebMercatorCell set \<Rightarrow> WebMercatorCell set" where
  "sweep_level all_cells lvl empties =
     (let cells_of_level = filter (\<lambda>v. cell_level v = lvl) all_cells
      in fold (\<lambda>cell empties.
                 if in_empties (cell_0 cell) empties \<and> in_empties (cell_1 cell) empties
                    \<and> in_empties (cell_2 cell) empties \<and> in_empties (cell_3 cell) empties
                 then insert cell empties else empties)
           cells_of_level empties)"

text \<open>The test of line 103: all four children of a cell are in \<^verbatim>\<open>empties\<close>.\<close>

definition children_empty :: "WebMercatorCell \<Rightarrow> WebMercatorCell set \<Rightarrow> bool" where
  "children_empty cell empties =
     (in_empties (cell_0 cell) empties \<and> in_empties (cell_1 cell) empties
      \<and> in_empties (cell_2 cell) empties \<and> in_empties (cell_3 cell) empties)"

text \<open>
  \<^verbatim>\<open>range(max_level - 1, min_level - 1, -1)\<close> is the list \<open>[min_level..max_level - 1]\<close>
  reversed.  The result is the set \<^verbatim>\<open>empties\<close>; the order of \<^verbatim>\<open>list(empties)\<close> is not
  modelled.
\<close>

definition generate_list_of_empty_tiles ::
  "(Feature \<Rightarrow> Feature \<Rightarrow> Feature option) \<Rightarrow> GeoJSON \<Rightarrow> int \<Rightarrow> int
     \<Rightarrow> error + WebMercatorCell set" where
  "generate_list_of_empty_tiles intersect j min_level max_level =
     (case features j of None \<Rightarrow> Inl KeyError | Some fs \<Rightarrow>
      case polygon_features fs of Inl e \<Rightarrow> Inl e | Inr polygons \<Rightarrow>
      case generate_webmercator_grid max_level of Inl e \<Rightarrow> Inl e | Inr grid \<Rightarrow>
        let all_cells = filter (\<lambda>v. cell_level v \<ge> min_level) (flatten grid);
            intermediate_cells =
              filter (\<lambda>v. cell_level v = max min_level (max_level - 7)) all_cells;
            empties = fold (classify_partition intersect polygons max_level)
                        intermediate_cells {};
            empties = fold (sweep_level all_cells) (rev [min_level..max_level - 1]) empties
        in Inr empties)"

text \<open>An intersection primitive that never finds an intersection, for examples.\<close>

definition no_intersection :: "Feature \<Rightarrow> Feature \<Rightarrow> Feature option" where
  "no_intersection f g = None"

text \<open>An intersection primitive that finds every pair of features to intersect.\<close>

definition always_intersects :: "Feature \<Rightarrow> Feature \<Rightarrow> Feature option" where
  "always_intersects f g = Some f"

section \<open>generate.py\<close>

text \<open>
  A height thumbnail is a 128 x 128 array (both writers resize to \<^verbatim>\<open>(128, 128)\<close>) and the
  merge buffer a 272 x 272 array.  An array is modelled by the function from row and
  column to the sample; its shape is the fixed one.  The tile directory is modelled by
  the thumbnails it holds, under the level, column and row of the path
  \<^verbatim>\<open>level/i/j.hgt.pgm\<close>; a key without a value is a file that does not exist.
  For a negative level Python's \<^verbatim>\<open>2**level\<close> is a float; the model is meant for
  levels from 0 on.
\<close>

type_synonym HeightGrid = "nat \<Rightarrow> nat \<Rightarrow> real"

type_synonym tile_files = "int \<times> int \<times> int \<Rightarrow> HeightGrid option"

definition zeros :: HeightGrid where
  "zeros = (\<lambda>row col. 0)"

definition flat_grid :: "real \<Rightarrow> HeightGrid" where
  "flat_grid h = (\<lambda>row col. h)"

text \<open>Lines 142 to 146 of \<^verbatim>\<open>_get_heightdata\<close>: the column index after the wrap.\<close>

definition wrapped_column :: "int \<Rightarrow> int \<Rightarrow> int" where
  "wrapped_column lvl i =
     (let maxindex = 2 ^ nat lvl
      in if i < 0 then maxindex + i
         else if i \<ge> maxindex then i - maxindex
         else i)"

definition get_heightdata :: "tile_files \<Rightarrow> int \<Rightarrow> int \<Rightarrow> int \<Rightarrow> HeightGrid" where
  "get_heightdata tile_directory lvl i j =
     (let i = wrapped_column lvl i
      in case tile_directory (lvl, i, j) of
           None \<Rightarrow> zeros
         | Some img \<Rightarrow> img)"

text \<open>
  \<open>slice a r0 c0\<close> is the part of \<open>a\<close> that starts at row \<open>r0\<close> and column \<open>c0\<close>
  (\<^verbatim>\<open>a[r0:, c0:]\<close>; where it ends is fixed by the block it is assigned to), and
  \<open>assign data r0 r1 c0 c1 src\<close> the array after \<^verbatim>\<open>data[r0:r1, c0:c1] = src\<close>.
\<close>

definition slice :: "HeightGrid \<Rightarrow> nat \<Rightarrow> nat \<Rightarrow> HeightGrid" where
  "slice a r0 c0 = (\<lambda>row col. a (r0 + row) (c0 + col))"

definition assign :: "HeightGrid \<Rightarrow> nat \<Rightarrow> nat \<Rightarrow> nat \<Rightarrow> nat \<Rightarrow> HeightGrid \<Rightarrow> HeightGrid" where
  "assign data r0 r1 c0 c1 src =
     (\<lambda>row col. if r0 \<le> row \<and> row < r1 \<and> c0 \<le> col \<and> col < c1
                then src (row - r0) (col - c0) else data row col)"

text \<open>
  Lines 203 to 232 of \<^verbatim>\<open>_generate_merged_cell_from_subcells\<close>: the padded buffer
  \<^verbatim>\<open>data\<close>, from which the function then computes the hillshade and the thumbnail.
\<close>

definition generate_merged_cell_from_subcells ::
  "WebMercatorCell \<Rightarrow> tile_files \<Rightarrow> int \<Rightarrow> HeightGrid" where
  "generate_merged_cell_from_subcells cell tile_directory lev =
     (let lvl = lev + 1;
          i0 = 2 * cell_i cell;
          j0 = 2 * cell_j cell;
          margin = 8;
          data = zeros;
          data = assign data margin (128 + margin) margin (128 + margin)
                   (get_heightdata tile_directory lvl i0 j0);
          data = assign data margin (128 + margin) (128 + margin) (256 + margin)
                   (get_heightdata tile_directory lvl (i0 + 1) j0);
          data = assign data (128 + margin) (256 + margin) margin (128 + margin)
                   (get_heightdata tile_directory lvl i0 (j0 + 1));
          data = assign data (128 + margin) (256 + margin) (128 + margin) (256 + margin)
                   (get_heightdata tile_directory lvl (i0 + 1) (j0 + 1));
          data = assign data 0 margin 0 margin
                   (slice (get_heightdata tile_directory lvl (i0 - 1) (j0 - 1))
                      (128 - margin) (128 - margin));
          data = assign data 0 margin margin (128 + margin)
                   (slice (get_heightdata tile_directory lvl i0 (j0 - 1)) (128 - margin) 0);
          data = assign data 0 margin (128 + margin) (256 + margin)
                   (slice (get_heightdata tile_directory lvl (i0 + 1) (j0 - 1)) (128 - margin) 0);
          data = assign data 0 margin (256 + margin) (256 + 2 * margin)
                   (slice (get_heightdata tile_directory lvl (i0 + 2) (j0 - 1)) (128 - margin) 0);
          data = assign data margin (128 + margin) 0 margin
                   (slice (get_heightdata tile_directory lvl (i0 - 1) j0) 0 (128 - margin));
          data = assign data margin (128 + margin) (256 + margin) (256 + 2 * margin)
                   (slice (get_heightdata tile_directory lvl (i0 + 2) j0) 0 0);
          data = assign data (128 + margin) (256 + margin) 0 margin
                   (slice (get_heightdata tile_directory lvl (i0 - 1) (j0 + 1)) 0 (128 - margin));
          data = assign data (128 + margin) (256 + margin) (256 + margin) (256 + 2 * margin)
                   (slice (get_heightdata tile_directory lvl (i0 + 2) (j0 + 1)) 0 0);
          data = assign data (256 + margin) (256 + 2 * margin) 0 margin
                   (slice (get_heightdata tile_directory lvl (i0 - 1) (j0 + 2)) 0 (128 - margin));
          data = assign data (256 + margin) (256 + 2 * margin) margin (128 + margin)
                   (slice (get_heightdata tile_directory lvl i0 (j0 + 2)) 0 0);
          data = assign data (256 + margin) (256 + 2 * margin) (128 + margin) (256 + margin)
                   (slice (get_heightdata tile_directory lvl (i0 + 1) (j0 + 2)) 0 0);
          data = assign data (256 + margin) (256 + 2 * margin) (256 + margin) (256 + 2 * margin)
                   (slice (get_heightdata tile_directory lvl (i0 + 2) (j0 + 2)) 0 0)
      in data)"

text \<open>
  The neighbour a buffer position is filled from, as the offset of its column or row
  from \<open>i0\<close> or \<open>j0\<close>: the first 8 positions lie before the first child, the next two
  blocks of 128 in the two children, the last 8 after the second child.
\<close>

definition offset_of :: "nat \<Rightarrow> int" where
  "offset_of p = (if p < 8 then - 1 else if p < 136 then 0 else if p < 264 then 1 else 2)"

text \<open>
  The row or column of the neighbour's thumbnail that a buffer position is filled from:
  the last 8 of the neighbour before, the position itself within a child, the first 8
  of the neighbour after.
\<close>

definition source_index :: "nat \<Rightarrow> nat" where
  "source_index p =
     (if p < 8 then 120 + p else if p < 136 then p - 8
      else if p < 264 then p - 136 else p - 264)"

section \<open>imagetools.py\<close>

text \<open>
  \<^verbatim>\<open>to_hillshade\<close>.  earthpy's \<^verbatim>\<open>hillshade\<close> followed by the conversion to \<^verbatim>\<open>uint8\<close>
  (lines 102 and 105) is a parameter of the model, \<open>hillshade_uint8\<close>; the arithmetic of
  line 108 is that of \<^verbatim>\<open>uint8\<close> arrays, modelled on 8-bit words.
\<close>

type_synonym Image_L = "nat \<Rightarrow> nat \<Rightarrow> 8 word"

definition to_hillshade :: "(HeightGrid \<Rightarrow> Image_L) \<Rightarrow> HeightGrid \<Rightarrow> Image_L" where
  "to_hillshade hillshade_uint8 data =
     (let out_array = hillshade_uint8 data;
          out_array = (\<lambda>row col. 255 - ((255 - out_array row col) div 3))
      in out_array)"

section \<open>Properties of the projection\<close>

lemma mercator_angle_range:
  assumes "\<bar>lat\<bar> < 90"
  shows "0 < pi / 4 + lat / 2 * pi / 180" and "pi / 4 + lat / 2 * pi / 180 < pi / 2"
proof -
  define p where "p = lat * pi"
  have a: "- 90 < lat" and b: "lat < 90" using assms by auto
  have lo: "- 90 * pi < p"
    unfolding p_def using a pi_gt_zero by (intro mult_strict_right_mono) auto
  have hi: "p < 90 * pi"
    unfolding p_def using b pi_gt_zero by (intro mult_strict_right_mono) auto
  have eq: "pi / 4 + lat / 2 * pi / 180 = pi / 4 + p / 360"
    by (simp add: p_def)
  show "0 < pi / 4 + lat / 2 * pi / 180"
    unfolding eq using lo by linarith
  show "pi / 4 + lat / 2 * pi / 180 < pi / 2"
    unfolding eq using hi by linarith
qed

lemma mercator_tan_pos:
  assumes "\<bar>lat\<bar> < 90"
  shows "0 < tan (pi / 4 + lat / 2 * pi / 180)"
  by (rule tan_gt_zero [OF mercator_angle_range [OF assms]])

lemma invert_proj_value:
  assumes "\<bar>lat\<bar> < 90"
  shows "invert_mercator (R * lng * pi / 180) (R * ln (tan (pi / 4 + lat / 2 * pi / 180)))
         = (lat, lng)"
proof -
  let ?a = "pi / 4 + lat / 2 * pi / 180"
  have pos: "0 < tan ?a" by (rule mercator_tan_pos [OF assms])
  have rng: "- (pi / 2) < ?a" "?a < pi / 2"
    using mercator_angle_range [OF assms] pi_gt_zero by linarith+
  have "exp (R * ln (tan ?a) / R) = tan ?a"
    using pos by (simp add: R_def)
  moreover have "arctan (tan ?a) = ?a"
    using rng by (rule arctan_tan)
  moreover have "360 * (?a - pi / 4) / pi = lat" by simp
  moreover have "R * lng * pi / 180 * 180 / pi / R = lng" by (simp add: R_def)
  ultimately show ?thesis by (simp add: invert_mercator_def Let_def)
qed

text \<open>
  Claim C4.  For every latitude strictly between -90 and 90 degrees and every longitude,
  the forward projection succeeds and the inverse projection applied to its result
  gives the latitude and longitude back, exactly, over the real numbers.  Both functions
  are functions of their arguments alone.
\<close>

theorem mercator_round_trip:
  assumes "\<bar>lat\<bar> < 90"
  shows "\<exists>x y. proj_mercator lat lng = Inr (x, y) \<and> invert_mercator x y = (lat, lng)"
proof -
  have "proj_mercator lat lng
        = Inr (R * lng * pi / 180, R * ln (tan (pi / 4 + lat / 2 * pi / 180)))"
    using mercator_tan_pos [OF assms] by (simp add: proj_mercator_def Let_def)
  with invert_proj_value [OF assms, of lng] show ?thesis by blast
qed

theorem mercator_round_trip_witness:
  "\<bar>45 :: real\<bar> < 90 \<and>
   (\<exists>x y. proj_mercator 45 10 = Inr (x, y) \<and> invert_mercator x y = (45, 10))"
  using mercator_round_trip [of 45 10] by simp

section \<open>Properties of the quadtree\<close>

declare conditional_recursive_subdivide.simps [simp del]

lemma subdivide_at_max_depth:
  "max_depth \<le> cell_level self \<Longrightarrow>
   conditional_recursive_subdivide condition max_depth self = self"
  by (subst conditional_recursive_subdivide.simps) simp

lemma subdivide_below_max_depth:
  assumes "cell_level self < max_depth"
  shows "conditional_recursive_subdivide condition max_depth self =
    (let xmid = (cell_x0 self + cell_x1 self) / 2;
         ymid = (cell_y0 self + cell_y1 self) / 2;
         k0 = candidate (cell_0 self) (cell_level self + 1) (2 * cell_i self) (2 * cell_j self)
                (cell_x0 self) xmid (cell_y0 self) ymid;
         k1 = candidate (cell_1 self) (cell_level self + 1) (2 * cell_i self + 1) (2 * cell_j self)
                xmid (cell_x1 self) (cell_y0 self) ymid;
         k2 = candidate (cell_2 self) (cell_level self + 1) (2 * cell_i self) (2 * cell_j self + 1)
                (cell_x0 self) xmid ymid (cell_y1 self);
         k3 = candidate (cell_3 self) (cell_level self + 1) (2 * cell_i self + 1) (2 * cell_j self + 1)
                xmid (cell_x1 self) ymid (cell_y1 self)
     in WebMercatorCell (cell_level self) (cell_i self) (cell_j self)
          (cell_x0 self) (cell_x1 self) (cell_y0 self) (cell_y1 self)
          (if condition k0 then Some (conditional_recursive_subdivide condition max_depth k0)
           else cell_0 self)
          (if condition k1 then Some (conditional_recursive_subdivide condition max_depth k1)
           else cell_1 self)
          (if condition k2 then Some (conditional_recursive_subdivide condition max_depth k2)
           else cell_2 self)
          (if condition k3 then Some (conditional_recursive_subdivide condition max_depth k3)
           else cell_3 self))"
  using assms by (subst conditional_recursive_subdivide.simps) (simp add: Let_def)

lemma subdivide_fields [simp]:
  "cell_level (conditional_recursive_subdivide condition max_depth self) = cell_level self"
  "cell_i (conditional_recursive_subdivide condition max_depth self) = cell_i self"
  "cell_j (conditional_recursive_subdivide condition max_depth self) = cell_j self"
  "cell_x0 (conditional_recursive_subdivide condition max_depth self) = cell_x0 self"
  "cell_x1 (conditional_recursive_subdivide condition max_depth self) = cell_x1 self"
  "cell_y0 (conditional_recursive_subdivide condition max_depth self) = cell_y0 self"
  "cell_y1 (conditional_recursive_subdivide condition max_depth self) = cell_y1 self"
  by (subst conditional_recursive_subdivide.simps, simp add: Let_def)+

lemma subdivide_kid:
  assumes "cell_level self < max_depth"
  shows "conditional_recursive_subdivide condition max_depth self =
     WebMercatorCell (cell_level self) (cell_i self) (cell_j self)
          (cell_x0 self) (cell_x1 self) (cell_y0 self) (cell_y1 self)
          (if condition (kid 0 self)
           then Some (conditional_recursive_subdivide condition max_depth (kid 0 self))
           else cell_0 self)
          (if condition (kid 1 self)
           then Some (conditional_recursive_subdivide condition max_depth (kid 1 self))
           else cell_1 self)
          (if condition (kid 2 self)
           then Some (conditional_recursive_subdivide condition max_depth (kid 2 self))
           else cell_2 self)
          (if condition (kid 3 self)
           then Some (conditional_recursive_subdivide condition max_depth (kid 3 self))
           else cell_3 self)"
  unfolding subdivide_below_max_depth [OF assms] by (simp add: kid_def Let_def)

text \<open>
  Induction along the recursion of \<open>conditional_recursive_subdivide\<close>, with the four
  recursive calls given through \<open>kid\<close>.
\<close>

lemma subdivide_induct [case_names step]:
  assumes "\<And>condition max_depth self.
     (\<And>k. k < 4 \<Longrightarrow> cell_level self < max_depth \<Longrightarrow> condition (kid k self)
        \<Longrightarrow> P condition max_depth (kid k self))
     \<Longrightarrow> P condition max_depth self"
  shows "P condition max_depth self"
proof (induction condition max_depth self rule: conditional_recursive_subdivide.induct)
  case (1 condition max_depth self)
  show ?case
  proof (rule assms)
    fix k :: nat
    assume k: "k < 4" and lv: "cell_level self < max_depth" and c: "condition (kid k self)"
    have nl: "\<not> max_depth \<le> cell_level self" using lv by simp
    consider "k = 0" | "k = 1" | "k = 2" | "k = 3" using k by linarith
    then show "P condition max_depth (kid k self)"
    proof cases
      case 1
      then show ?thesis using "1.IH"(1) [OF nl refl refl refl] c by (simp add: kid_def Let_def)
    next
      case 2
      then show ?thesis using "1.IH"(2) [OF nl refl refl refl refl refl] c
        by (simp add: kid_def Let_def)
    next
      case 3
      then show ?thesis using "1.IH"(3) [OF nl refl refl refl refl refl refl refl] c
        by (simp add: kid_def Let_def)
    next
      case 4
      then show ?thesis using "1.IH"(4) [OF nl refl refl refl refl refl refl refl refl refl] c
        by (simp add: kid_def Let_def)
    qed
  qed
qed

lemma kid_inv:
  assumes "quadtree_inv self"
  shows "quadtree_inv (kid k self)"
  using assms by (cases self) (auto simp: kid_def candidate_def Let_def split: option.splits)

lemma subdivide_preserves_inv:
  "quadtree_inv self \<Longrightarrow> quadtree_inv (conditional_recursive_subdivide condition max_depth self)"
proof (induction condition max_depth self rule: subdivide_induct)
  case (step condition max_depth self)
  show ?case
  proof (cases "max_depth \<le> cell_level self")
    case True
    then show ?thesis using step.prems by (simp add: subdivide_at_max_depth)
  next
    case False
    then have lv: "cell_level self < max_depth" by simp
    have IH: "\<And>k. k < 4 \<Longrightarrow> condition (kid k self) \<Longrightarrow>
        quadtree_inv (conditional_recursive_subdivide condition max_depth (kid k self))"
      using step.IH [OF _ lv _ kid_inv [OF step.prems]] by blast
    show ?thesis
      unfolding subdivide_kid [OF lv]
      using step.prems IH [of 0] IH [of 1] IH [of 2] IH [of 3]
      by (cases self) (simp add: kid_def candidate_def Let_def split: option.splits)
  qed
qed

lemma proj_equator: "proj_mercator 0 lng = Inr (R * lng * pi / 180, 0)"
  by (simp add: proj_mercator_def Let_def tan_45)

lemma proj_invert_y:
  "proj_mercator (fst (invert_mercator x y)) lng = Inr (R * lng * pi / 180, y)"
proof -
  let ?lat = "fst (invert_mercator x y)"
  have "?lat = 360 * (arctan (exp (y / R)) - pi / 4) / pi"
    by (simp add: invert_mercator_def Let_def)
  then have "pi / 4 + ?lat / 2 * pi / 180 = arctan (exp (y / R))"
    using pi_gt_zero by (simp add: field_simps)
  then have t: "tan (pi / 4 + ?lat / 2 * pi / 180) = exp (y / R)"
    by (simp add: tan_arctan)
  have "R * ln (exp (y / R)) = y" by (simp add: R_def)
  then show ?thesis unfolding proj_mercator_def Let_def t by simp
qed

lemma generate_webmercator_grid_eq:
  "generate_webmercator_grid refine_to_level =
     Inr (full_recursive_subdivide refine_to_level
            (WebMercatorCell 0 0 0 (- (R * pi)) (R * pi) (R * pi) (- (R * pi))
               None None None None))"
proof -
  obtain lat0 lng0 where a: "invert_mercator 0 (- (R * pi)) = (lat0, lng0)"
    by (cases "invert_mercator 0 (- (R * pi))")
  obtain lat1 lng1 where b: "invert_mercator 0 (R * pi)  = (lat1, lng1)"
    by (cases "invert_mercator 0 (R * pi)")
  have p1: "proj_mercator lat1 (- 180) = Inr (- (R * pi), R * pi)"
    using proj_invert_y [of 0 "R * pi" "- 180"] by (simp add: b)
  have p0: "proj_mercator lat0 180 = Inr (R * pi, - (R * pi))"
    using proj_invert_y [of 0 "- (R * pi)" 180] by (simp add: a)
  show ?thesis
    unfolding generate_webmercator_grid_def proj_equator
    by (simp add: a b p0 p1)
qed

lemma full_subdivide_count:
  "l \<le> d \<Longrightarrow> nat (d - l) = n \<Longrightarrow>
   3 * length (flatten (full_recursive_subdivide d
         (WebMercatorCell l i j x0 x1 y0 y1 None None None None))) + 1 = 4 ^ (n + 1)
   \<and> length (filter (\<lambda>v. cell_level v = d) (flatten (full_recursive_subdivide d
         (WebMercatorCell l i j x0 x1 y0 y1 None None None None)))) = 4 ^ n"
proof (induction n arbitrary: l i j x0 x1 y0 y1)
  case 0
  then have "d \<le> l" by simp
  then show ?case using 0
    by (simp add: full_recursive_subdivide_def subdivide_at_max_depth)
next
  case (Suc n)
  then have lv: "l < d" and le: "l + 1 \<le> d" and n: "nat (d - (l + 1)) = n" by auto
  note IH = Suc.IH [OF le n, unfolded full_recursive_subdivide_def]
  let ?xm = "(x0 + x1) / 2" and ?ym = "(y0 + y1) / 2"
  note a = IH [of "2 * i" "2 * j" x0 ?xm y0 ?ym]
  note b = IH [of "2 * i + 1" "2 * j" ?xm x1 y0 ?ym]
  note c = IH [of "2 * i" "2 * j + 1" x0 ?xm ?ym y1]
  note e = IH [of "2 * i + 1" "2 * j + 1" ?xm x1 ?ym y1]
  show ?case
    using lv a b c e
    unfolding full_recursive_subdivide_def
    by (simp add: subdivide_kid kid_def candidate_def Let_def)
qed

text \<open>
  Claim C5.  For every level \<open>L \<ge> 0\<close> the grid generated to level \<open>L\<close> has exactly
  \<open>4 ^ L\<close> cells of level \<open>L\<close>, and its flattening has \<open>(4 ^ (L + 1) - 1) / 3\<close> cells.
\<close>

theorem full_grid_node_counts:
  assumes "0 \<le> L"
  shows "\<exists>grid. generate_webmercator_grid L = Inr grid
           \<and> length (filter (\<lambda>v. cell_level v = L) (flatten grid)) = 4 ^ nat L
           \<and> length (flatten grid) = (4 ^ (nat L + 1) - 1) div 3"
proof -
  let ?g = "full_recursive_subdivide L
              (WebMercatorCell 0 0 0 (- (R * pi)) (R * pi) (R * pi) (- (R * pi))
                 None None None None)"
  have c: "3 * length (flatten ?g) + 1 = 4 ^ (nat L + 1)"
    and f: "length (filter (\<lambda>v. cell_level v = L) (flatten ?g)) = 4 ^ nat L"
    using full_subdivide_count [of 0 L "nat L" 0 0] assms by simp_all
  from c have "length (flatten ?g) = (4 ^ (nat L + 1) - 1) div 3" by linarith
  with f show ?thesis by (simp add: generate_webmercator_grid_eq)
qed

theorem full_grid_node_counts_witness:
  "(0 :: int) \<le> 2 \<and>
   (\<exists>grid. generate_webmercator_grid 2 = Inr grid
           \<and> length (filter (\<lambda>v. cell_level v = 2) (flatten grid)) = 16
           \<and> length (flatten grid) = 21)"
  using full_grid_node_counts [of 2] by simp

declare conditional_recursive_subdivide_with.simps [simp del]



lemma subdivide_with_fields [simp]:
  "cell_level (conditional_recursive_subdivide_with midpoint condition max_depth self)
     = cell_level self"
  "cell_i (conditional_recursive_subdivide_with midpoint condition max_depth self) = cell_i self"
  "cell_j (conditional_recursive_subdivide_with midpoint condition max_depth self) = cell_j self"
  "cell_x0 (conditional_recursive_subdivide_with midpoint condition max_depth self)
     = cell_x0 self"
  "cell_x1 (conditional_recursive_subdivide_with midpoint condition max_depth self)
     = cell_x1 self"
  "cell_y0 (conditional_recursive_subdivide_with midpoint condition max_depth self)
     = cell_y0 self"
  "cell_y1 (conditional_recursive_subdivide_with midpoint condition max_depth self)
     = cell_y1 self"
  by (subst conditional_recursive_subdivide_with.simps, simp add: Let_def)+












text \<open>
  Claim C3 as stated fails: below the maximum depth a quadrant whose candidate cell does
  not satisfy the condition is not created.  Here a root without children is subdivided
  to depth 1 with a condition that holds of no cell of level 1, and it stays without
  children.
\<close>

theorem subdivide_creates_all_children_counterexample:
  "cell_level (WebMercatorCell 0 0 0 0 4 4 0 None None None None) < 1
   \<and> conditional_recursive_subdivide (checker 0 intersects_nothing) 1
        (WebMercatorCell 0 0 0 0 4 4 0 None None None None)
      = WebMercatorCell 0 0 0 0 4 4 0 None None None None"
  by (simp add: subdivide_kid kid_def candidate_def Let_def checker_def intersects_nothing_def)

text \<open>
  Claim C3, amended.  A node whose level is at or beyond the maximum depth is left as it
  is, whatever the condition.  At a node below the maximum depth, address and box stay,
  and each of the four child slots is decided by the condition on its candidate, which
  is the child already in the slot or else a new cell without children for that
  quadrant: if the condition holds of the candidate, the slot holds the candidate
  subdivided in the same way; if not, the slot is left as it was, so that a quadrant
  without a child stays without one.
\<close>

theorem subdivide_attaches_where_condition_holds:
  "(max_depth \<le> cell_level self \<longrightarrow>
      conditional_recursive_subdivide condition max_depth self = self)
   \<and> (cell_level self < max_depth \<longrightarrow>
      (let xmid = (cell_x0 self + cell_x1 self) / 2;
           ymid = (cell_y0 self + cell_y1 self) / 2;
           result = conditional_recursive_subdivide condition max_depth self;
           k0 = (case cell_0 self of Some c \<Rightarrow> c | None \<Rightarrow>
                   WebMercatorCell (cell_level self + 1) (2 * cell_i self) (2 * cell_j self)
                     (cell_x0 self) xmid (cell_y0 self) ymid None None None None);
           k1 = (case cell_1 self of Some c \<Rightarrow> c | None \<Rightarrow>
                   WebMercatorCell (cell_level self + 1) (2 * cell_i self + 1) (2 * cell_j self)
                     xmid (cell_x1 self) (cell_y0 self) ymid None None None None);
           k2 = (case cell_2 self of Some c \<Rightarrow> c | None \<Rightarrow>
                   WebMercatorCell (cell_level self + 1) (2 * cell_i self) (2 * cell_j self + 1)
                     (cell_x0 self) xmid ymid (cell_y1 self) None None None None);
           k3 = (case cell_3 self of Some c \<Rightarrow> c | None \<Rightarrow>
                   WebMercatorCell (cell_level self + 1) (2 * cell_i self + 1) (2 * cell_j self + 1)
                     xmid (cell_x1 self) ymid (cell_y1 self) None None None None)
       in tile_address result = tile_address self
          \<and> cell_x0 result = cell_x0 self \<and> cell_x1 result = cell_x1 self
          \<and> cell_y0 result = cell_y0 self \<and> cell_y1 result = cell_y1 self
          \<and> cell_0 result =
               (if condition k0
                then Some (conditional_recursive_subdivide condition max_depth k0)
                else cell_0 self)
          \<and> cell_1 result =
               (if condition k1
                then Some (conditional_recursive_subdivide condition max_depth k1)
                else cell_1 self)
          \<and> cell_2 result =
               (if condition k2
                then Some (conditional_recursive_subdivide condition max_depth k2)
                else cell_2 self)
          \<and> cell_3 result =
               (if condition k3
                then Some (conditional_recursive_subdivide condition max_depth k3)
                else cell_3 self)))"
proof (intro conjI impI)
  assume "max_depth \<le> cell_level self"
  then show "conditional_recursive_subdivide condition max_depth self = self"
    by (rule subdivide_at_max_depth)
next
  assume lv: "cell_level self < max_depth"
  show "let xmid = (cell_x0 self + cell_x1 self) / 2;
           ymid = (cell_y0 self + cell_y1 self) / 2;
           result = conditional_recursive_subdivide condition max_depth self;
           k0 = (case cell_0 self of Some c \<Rightarrow> c | None \<Rightarrow>
                   WebMercatorCell (cell_level self + 1) (2 * cell_i self) (2 * cell_j self)
                     (cell_x0 self) xmid (cell_y0 self) ymid None None None None);
           k1 = (case cell_1 self of Some c \<Rightarrow> c | None \<Rightarrow>
                   WebMercatorCell (cell_level self + 1) (2 * cell_i self + 1) (2 * cell_j self)
                     xmid (cell_x1 self) (cell_y0 self) ymid None None None None);
           k2 = (case cell_2 self of Some c \<Rightarrow> c | None \<Rightarrow>
                   WebMercatorCell (cell_level self + 1) (2 * cell_i self) (2 * cell_j self + 1)
                     (cell_x0 self) xmid ymid (cell_y1 self) None None None None);
           k3 = (case cell_3 self of Some c \<Rightarrow> c | None \<Rightarrow>
                   WebMercatorCell (cell_level self + 1) (2 * cell_i self + 1) (2 * cell_j self + 1)
                     xmid (cell_x1 self) ymid (cell_y1 self) None None None None)
       in tile_address result = tile_address self
          \<and> cell_x0 result = cell_x0 self \<and> cell_x1 result = cell_x1 self
          \<and> cell_y0 result = cell_y0 self \<and> cell_y1 result = cell_y1 self
          \<and> cell_0 result =
               (if condition k0
                then Some (conditional_recursive_subdivide condition max_depth k0)
                else cell_0 self)
          \<and> cell_1 result =
               (if condition k1
                then Some (conditional_recursive_subdivide condition max_depth k1)
                else cell_1 self)
          \<and> cell_2 result =
               (if condition k2
                then Some (conditional_recursive_subdivide condition max_depth k2)
                else cell_2 self)
          \<and> cell_3 result =
               (if condition k3
                then Some (conditional_recursive_subdivide condition max_depth k3)
                else cell_3 self)"
    unfolding Let_def tile_address_def
    by (simp add: subdivide_kid [OF lv] kid_def candidate_def Let_def)
qed

theorem subdivide_attaches_where_condition_holds_witness:
  "(7 :: int) \<le> cell_level (WebMercatorCell 7 0 0 0 4 4 0 None None None None)
   \<and> conditional_recursive_subdivide (checker 9 intersects_nothing) 7
        (WebMercatorCell 7 0 0 0 4 4 0 None None None None)
      = WebMercatorCell 7 0 0 0 4 4 0 None None None None
   \<and> cell_level (WebMercatorCell 0 0 0 0 4 4 0 None None None None) < 2
   \<and> cell_3 (conditional_recursive_subdivide (checker 1 intersects_nothing) 2
        (WebMercatorCell 0 0 0 0 4 4 0 None None None None))
      = Some (WebMercatorCell 1 1 1 2 4 2 0 None None None None)"
proof -
  have a: "conditional_recursive_subdivide (checker 1 intersects_nothing) 2
             (WebMercatorCell 1 1 1 2 4 2 0 None None None None)
           = WebMercatorCell 1 1 1 2 4 2 0 None None None None"
    by (simp add: subdivide_kid kid_def candidate_def Let_def checker_def
        intersects_nothing_def)
  show ?thesis
    using subdivide_attaches_where_condition_holds
            [of 7 "WebMercatorCell 7 0 0 0 4 4 0 None None None None"
                "checker 9 intersects_nothing"]
          subdivide_attaches_where_condition_holds
            [of 2 "WebMercatorCell 0 0 0 0 4 4 0 None None None None"
                "checker 1 intersects_nothing"]
    by (simp add: Let_def checker_def a)
qed

section \<open>Properties of the hillshade renderer\<close>

lemma lighten_unat:
  fixes v :: "8 word"
  shows "unat (255 - ((255 - v) div 3)) = 255 - (255 - unat v) div 3"
proof -
  have v: "unat v \<le> 255" using unsigned_less [of v, where ?'a = nat] by simp
  have le1: "v \<le> 255" by (simp add: word_le_nat_alt v)
  have a: "unat (255 - v) = 255 - unat v"
    using unat_sub [OF le1] by simp
  have b: "unat ((255 - v) div 3) = (255 - unat v) div 3"
    by (simp add: unat_div a)
  have "(255 - v) div 3 \<le> 255"
    by (simp add: word_le_nat_alt b)
  from unat_sub [OF this] show ?thesis by (simp add: b)
qed

text \<open>
  Claim C9.  Every value of the image that \<open>to_hillshade\<close> returns is
  \<open>255 - (255 - v) / 3\<close> for the 8-bit hillshade value \<open>v\<close> at the same position, the
  division being the integer division of the source (\<^verbatim>\<open>//\<close>); no step of the 8-bit
  arithmetic wraps around, and the result lies between 170 and 255.
\<close>

theorem to_hillshade_tone_transform:
  "unat (to_hillshade hillshade_uint8 data row col)
     = 255 - (255 - unat (hillshade_uint8 data row col)) div 3
   \<and> 170 \<le> unat (to_hillshade hillshade_uint8 data row col)
   \<and> unat (to_hillshade hillshade_uint8 data row col) \<le> 255"
proof -
  have "unat (to_hillshade hillshade_uint8 data row col)
     = 255 - (255 - unat (hillshade_uint8 data row col)) div 3"
    by (simp add: to_hillshade_def Let_def lighten_unat)
  then show ?thesis by simp
qed

section \<open>Properties of the merge buffer\<close>

text \<open>
  Claim C10.  For a level \<open>lvl \<ge> 0\<close>, \<open>get_heightdata\<close> asked for column \<open>-1\<close> reads the
  thumbnail of column \<open>2 ^ lvl - 1\<close>, asked for column \<open>2 ^ lvl\<close> reads that of column
  \<open>0\<close>, and asked for a column in range reads that column; the row is in every case the
  row it was asked for.  When the tile directory has no thumbnail at the address after
  the wrap, the result is the grid of zeros.
\<close>

theorem get_heightdata_wraps_column_only:
  assumes "0 \<le> lvl"
  shows "get_heightdata tile_directory lvl (- 1) j
           = (case tile_directory (lvl, 2 ^ nat lvl - 1, j) of None \<Rightarrow> zeros | Some img \<Rightarrow> img)
       \<and> get_heightdata tile_directory lvl (2 ^ nat lvl) j
           = (case tile_directory (lvl, 0, j) of None \<Rightarrow> zeros | Some img \<Rightarrow> img)
       \<and> (0 \<le> i \<and> i < 2 ^ nat lvl \<longrightarrow>
            get_heightdata tile_directory lvl i j
              = (case tile_directory (lvl, i, j) of None \<Rightarrow> zeros | Some img \<Rightarrow> img))
       \<and> (tile_directory (lvl, wrapped_column lvl i, j) = None \<longrightarrow>
            (\<forall>row col. get_heightdata tile_directory lvl i j row col = 0))"
proof -
  have pos: "(0 :: int) < 2 ^ nat lvl" by simp
  have left: "wrapped_column lvl (- 1) = 2 ^ nat lvl - 1"
    by (simp add: wrapped_column_def Let_def)
  have right: "wrapped_column lvl (2 ^ nat lvl) = 0"
    using pos by (simp add: wrapped_column_def Let_def)
  have inside: "wrapped_column lvl i = i" if "0 \<le> i" and "i < 2 ^ nat lvl"
    using that by (simp add: wrapped_column_def Let_def)
  have absent: "get_heightdata tile_directory lvl i j row col = 0"
    if "tile_directory (lvl, wrapped_column lvl i, j) = None" for row col
    using that by (simp add: get_heightdata_def Let_def zeros_def)
  show ?thesis
    using inside absent by (simp add: get_heightdata_def Let_def left right)
qed

theorem get_heightdata_wraps_column_only_witness:
  "(0 :: int) \<le> 3
   \<and> get_heightdata [(3, 7, 8) \<mapsto> flat_grid 9] 3 (- 1) 8 = flat_grid 9
   \<and> get_heightdata [(3, 0, - 1) \<mapsto> flat_grid 9] 3 8 (- 1) = flat_grid 9
   \<and> (0 :: int) \<le> 5 \<and> (5 :: int) < 2 ^ nat 3
   \<and> get_heightdata [(3, 5, 8) \<mapsto> flat_grid 9] 3 5 8 = flat_grid 9
   \<and> ([(3, 7, 0) \<mapsto> flat_grid 9] :: tile_files) (3, wrapped_column 3 7, 8) = None
   \<and> (\<forall>row col. get_heightdata [(3, 7, 0) \<mapsto> flat_grid 9] 3 7 8 row col = 0)"
  using get_heightdata_wraps_column_only [of 3 "[(3, 7, 8) \<mapsto> flat_grid 9]" 8 5]
        get_heightdata_wraps_column_only [of 3 "[(3, 0, - 1) \<mapsto> flat_grid 9]" "- 1" 5]
        get_heightdata_wraps_column_only [of 3 "[(3, 5, 8) \<mapsto> flat_grid 9]" 8 5]
        get_heightdata_wraps_column_only [of 3 "[(3, 7, 0) \<mapsto> flat_grid 9]" 8 7]
  by (simp add: wrapped_column_def zeros_def)

lemma merged_pixel:
  assumes "row < 272" "col < 272"
  shows "generate_merged_cell_from_subcells cell tile_directory lev row col
         = get_heightdata tile_directory (lev + 1)
             (2 * cell_i cell + offset_of col) (2 * cell_j cell + offset_of row)
             (if row < 8 then 120 + row else if row < 136 then row - 8
              else if row < 264 then row - 136 else row - 264)
             (if col < 8 then 120 + col else if col < 136 then col - 8
              else if col < 264 then col - 136 else col - 264)"
  using assms
  by (simp add: generate_merged_cell_from_subcells_def Let_def assign_def slice_def offset_of_def)

text \<open>
  Claim C2 as stated fails for a neighbour past the left or right edge of the dataset:
  its column is wrapped to the opposite edge, and when a thumbnail exists there the
  strip is filled from it.  For the level 0 tile the left neighbour of its upper left
  child has the address \<open>(1, -1, 0)\<close>, at which the directory has no thumbnail, and yet
  the strip at the left border of the buffer holds the samples of tile \<open>(1, 1, 0)\<close>.
\<close>

theorem missing_neighbour_strip_zero_counterexample:
  "([(1, 1, 0) \<mapsto> flat_grid 5] :: tile_files) (1, - 1, 0) = None
   \<and> generate_merged_cell_from_subcells
        (WebMercatorCell 0 0 0 0 4 4 0 None None None None)
        [(1, 1, 0) \<mapsto> flat_grid 5] 0 8 0 = 5"
  by (simp add: merged_pixel offset_of_def get_heightdata_def wrapped_column_def flat_grid_def)

text \<open>
  Claim C2, amended.  Every position of the 272 x 272 buffer, and so every position of
  its border strips, is filled from the tile of level \<open>level + 1\<close> whose column is
  \<open>2i + {-1, 0, 1, 2}\<close>, wrapped around at the left and right edge of the dataset, and
  whose row is \<open>2j + {-1, 0, 1, 2}\<close>, not wrapped: it holds the sample of that tile's
  thumbnail at the matching row and column when the tile directory has a thumbnail at
  that address after the wrap, and zero when it has none.  The level of the merged tile
  is taken to be at least 0.
\<close>

theorem strip_filled_from_wrapped_neighbour:
  assumes "0 \<le> lev" and "row < 272" and "col < 272"
  shows "generate_merged_cell_from_subcells cell tile_directory lev row col
         = (case tile_directory
                   (lev + 1, wrapped_column (lev + 1) (2 * cell_i cell + offset_of col),
                    2 * cell_j cell + offset_of row) of
              None \<Rightarrow> 0
            | Some img \<Rightarrow> img (source_index row) (source_index col))"
  unfolding merged_pixel [OF assms(2,3)]
  by (simp add: get_heightdata_def zeros_def source_index_def split: option.splits)

theorem strip_filled_from_wrapped_neighbour_witness:
  "(0 :: int) \<le> 0 \<and> (8 :: nat) < 272 \<and> (0 :: nat) < 272
   \<and> (3 :: nat) < 272 \<and> (270 :: nat) < 272
   \<and> generate_merged_cell_from_subcells
        (WebMercatorCell 0 0 0 0 4 4 0 None None None None)
        [(1, 1, 0) \<mapsto> flat_grid 5] 0 8 0 = 5
   \<and> generate_merged_cell_from_subcells
        (WebMercatorCell 0 0 0 0 4 4 0 None None None None)
        [(1, 1, 0) \<mapsto> flat_grid 5] 0 3 270 = 0"
  using strip_filled_from_wrapped_neighbour
      [of 0 8 0 "WebMercatorCell 0 0 0 0 4 4 0 None None None None"
          "[(1, 1, 0) \<mapsto> flat_grid 5]"]
    strip_filled_from_wrapped_neighbour
      [of 0 3 270 "WebMercatorCell 0 0 0 0 4 4 0 None None None None"
          "[(1, 1, 0) \<mapsto> flat_grid 5]"]
  by (simp add: wrapped_column_def offset_of_def flat_grid_def)

section \<open>The landmass document\<close>






section \<open>Cells of a tree and their addresses\<close>

lemma cell_induct [case_names node]:
  assumes "\<And>t. (\<And>d. is_child d t \<Longrightarrow> P d) \<Longrightarrow> P t"
  shows "P t"
proof (induction t)
  case (WebMercatorCell l i j x0 x1 y0 y1 c0 c1 c2 c3)
  show ?case
  proof (rule assms)
    fix d
    assume "is_child d (WebMercatorCell l i j x0 x1 y0 y1 c0 c1 c2 c3)"
    then have "d \<in> set_option c0 \<or> d \<in> set_option c1 \<or> d \<in> set_option c2 \<or> d \<in> set_option c3"
      by (auto simp: is_child_def)
    then show "P d" using WebMercatorCell by blast
  qed
qed

lemma in_flatten_iff:
  "c \<in> set (flatten t) \<longleftrightarrow> c = t \<or> (\<exists>d. is_child d t \<and> c \<in> set (flatten d))"
  by (cases t) (auto simp: is_child_def split: option.splits)

lemma flatten_self: "c \<in> set (flatten c)"
  by (subst in_flatten_iff) simp

lemma flatten_trans:
  "c \<in> set (flatten t) \<Longrightarrow> d \<in> set (flatten c) \<Longrightarrow> d \<in> set (flatten t)"
proof (induction t rule: cell_induct)
  case (node t)
  from node.prems(1) consider "c = t" | e where "is_child e t" "c \<in> set (flatten e)"
    by (subst (asm) in_flatten_iff) blast
  then show ?case
  proof cases
    case 1
    then show ?thesis using node.prems(2) by simp
  next
    case 2
    then have "d \<in> set (flatten e)" using node.IH node.prems(2) by blast
    then show ?thesis using 2(1) by (subst in_flatten_iff) blast
  qed
qed

lemma inv_child:
  assumes "quadtree_inv t" and "is_child d t"
  shows "quadtree_inv d" and "cell_level d = cell_level t + 1"
    and "cell_i d = 2 * cell_i t \<or> cell_i d = 2 * cell_i t + 1"
    and "cell_j d = 2 * cell_j t \<or> cell_j d = 2 * cell_j t + 1"
  using assms by (cases t; auto simp: is_child_def)+

lemma child_unique:
  assumes "quadtree_inv t" and "is_child d t" and "is_child e t"
    and "cell_i d = cell_i e" and "cell_j d = cell_j e"
  shows "d = e"
  using assms by (cases t) (auto simp: is_child_def)

lemma inv_sub:
  "quadtree_inv t \<Longrightarrow> c \<in> set (flatten t) \<Longrightarrow> quadtree_inv c"
proof (induction t rule: cell_induct)
  case (node t)
  from node.prems(2) consider "c = t" | e where "is_child e t" "c \<in> set (flatten e)"
    by (subst (asm) in_flatten_iff) blast
  then show ?case
  proof cases
    case 1
    then show ?thesis using node.prems(1) by simp
  next
    case 2
    then show ?thesis using node.IH [OF 2(1) inv_child(1) [OF node.prems(1) 2(1)]] by blast
  qed
qed

text \<open>
  The cells below a cell \<open>t\<close> lie in the block of addresses that \<open>t\<close> covers at their
  level.
\<close>

lemma flatten_range:
  "quadtree_inv t \<Longrightarrow> c \<in> set (flatten t) \<Longrightarrow>
   cell_level t \<le> cell_level c
   \<and> 2 ^ nat (cell_level c - cell_level t) * cell_i t \<le> cell_i c
   \<and> cell_i c < 2 ^ nat (cell_level c - cell_level t) * (cell_i t + 1)
   \<and> 2 ^ nat (cell_level c - cell_level t) * cell_j t \<le> cell_j c
   \<and> cell_j c < 2 ^ nat (cell_level c - cell_level t) * (cell_j t + 1)"
proof (induction t rule: cell_induct)
  case (node t)
  from node.prems(2) consider "c = t" | e where "is_child e t" "c \<in> set (flatten e)"
    by (subst (asm) in_flatten_iff) blast
  then show ?case
  proof cases
    case 1
    then show ?thesis by simp
  next
    case 2
    note ch = inv_child [OF node.prems(1) 2(1)]
    note IH = node.IH [OF 2(1) ch(1) 2(2)]
    define m :: int where "m = 2 ^ nat (cell_level c - cell_level e)"
    have le: "cell_level t + 1 \<le> cell_level c" using IH ch(2) by simp
    then have "nat (cell_level c - cell_level t) = Suc (nat (cell_level c - cell_level e))"
      using ch(2) by simp
    then have pw: "2 ^ nat (cell_level c - cell_level t) = 2 * m"
      by (simp add: m_def)
    have mpos: "0 < m" by (simp add: m_def)
    have i1: "m * cell_i e \<le> cell_i c" and i2: "cell_i c < m * (cell_i e + 1)"
      and j1: "m * cell_j e \<le> cell_j c" and j2: "cell_j c < m * (cell_j e + 1)"
      using IH by (simp_all add: m_def)
    have "2 * m * cell_i t \<le> cell_i c \<and> cell_i c < 2 * m * (cell_i t + 1)"
      using ch(3) i1 i2 mpos by (auto simp: algebra_simps)
    moreover have "2 * m * cell_j t \<le> cell_j c \<and> cell_j c < 2 * m * (cell_j t + 1)"
      using ch(4) j1 j2 mpos by (auto simp: algebra_simps)
    ultimately show ?thesis using le by (simp add: pw)
  qed
qed

lemma flatten_same_level:
  assumes "quadtree_inv t" and "c \<in> set (flatten t)" and "cell_level c = cell_level t"
  shows "c = t"
proof (rule ccontr)
  assume "c \<noteq> t"
  with assms(2) obtain e where e: "is_child e t" "c \<in> set (flatten e)"
    by (subst (asm) in_flatten_iff) blast
  note ch = inv_child [OF assms(1) e(1)]
  from flatten_range [OF ch(1) e(2)] ch(2) assms(3) show False by simp
qed

lemma flatten_parent:
  "c \<in> set (flatten t) \<Longrightarrow> c \<noteq> t \<Longrightarrow> \<exists>p \<in> set (flatten t). is_child c p"
proof (induction t rule: cell_induct)
  case (node t)
  from node.prems obtain e where e: "is_child e t" "c \<in> set (flatten e)"
    by (subst (asm) in_flatten_iff) blast
  show ?case
  proof (cases "c = e")
    case True
    then show ?thesis using e(1) flatten_self [of t] by blast
  next
    case False
    from node.IH [OF e(1) e(2) False] obtain p where p: "p \<in> set (flatten e)" "is_child c p"
      by blast
    have "e \<in> set (flatten t)" using e(1) flatten_self [of e] by (subst in_flatten_iff) blast
    from flatten_trans [OF this p(1)] p(2) show ?thesis by blast
  qed
qed

lemma block_unique:
  fixes m x y v :: int
  assumes "0 < m" and "m * x \<le> v" and "v < m * (x + 1)" and "m * y \<le> v" and "v < m * (y + 1)"
  shows "x = y"
proof (rule ccontr)
  assume "x \<noteq> y"
  then consider "x + 1 \<le> y" | "y + 1 \<le> x" by linarith
  then show False
  proof cases
    case 1
    then have "m * (x + 1) \<le> m * y" using assms(1) by (intro mult_left_mono) auto
    with assms show False by linarith
  next
    case 2
    then have "m * (y + 1) \<le> m * x" using assms(1) by (intro mult_left_mono) auto
    with assms show False by linarith
  qed
qed

text \<open>In a tree that satisfies the invariant no two cells have the same address.\<close>

lemma address_unique:
  "quadtree_inv t \<Longrightarrow> c \<in> set (flatten t) \<Longrightarrow> c' \<in> set (flatten t) \<Longrightarrow>
   tile_address c = tile_address c' \<Longrightarrow> c = c'"
proof (induction t rule: cell_induct)
  case (node t)
  from node.prems(4) have lv: "cell_level c = cell_level c'" and ii: "cell_i c = cell_i c'"
    and jj: "cell_j c = cell_j c'" by (simp_all add: tile_address_def)
  show ?case
  proof (cases "c = t \<or> c' = t")
    case True
    then show ?thesis
      using flatten_same_level [OF node.prems(1)] node.prems(2,3) lv by metis
  next
    case False
    with node.prems(2) obtain e where e: "is_child e t" "c \<in> set (flatten e)"
      by (subst (asm) in_flatten_iff) blast
    from False node.prems(3) obtain e' where e': "is_child e' t" "c' \<in> set (flatten e')"
      by (subst (asm) in_flatten_iff) blast
    note ch = inv_child [OF node.prems(1) e(1)]
    note ch' = inv_child [OF node.prems(1) e'(1)]
    note r = flatten_range [OF ch(1) e(2)]
    note r' = flatten_range [OF ch'(1) e'(2)]
    have same: "cell_level e = cell_level e'" using ch(2) ch'(2) by simp
    define m :: int where "m = 2 ^ nat (cell_level c - cell_level e)"
    have mpos: "0 < m" by (simp add: m_def)
    have "cell_i e = cell_i e'"
      using block_unique [OF mpos, of "cell_i e" "cell_i c" "cell_i e'"] r r' same lv ii
      by (simp add: m_def)
    moreover have "cell_j e = cell_j e'"
      using block_unique [OF mpos, of "cell_j e" "cell_j c" "cell_j e'"] r r' same lv jj
      by (simp add: m_def)
    ultimately have "e = e'" using child_unique [OF node.prems(1) e(1) e'(1)] by simp
    then show ?thesis using node.IH [OF e(1) ch(1) e(2) _ node.prems(4)] e'(2) by simp
  qed
qed

text \<open>Every cell of a tree lies below a cell of each level between the root's and its own.\<close>

lemma flatten_ancestor:
  "quadtree_inv t \<Longrightarrow> c \<in> set (flatten t) \<Longrightarrow> cell_level t \<le> k \<Longrightarrow> k \<le> cell_level c \<Longrightarrow>
   \<exists>a \<in> set (flatten t). cell_level a = k \<and> c \<in> set (flatten a)"
proof (induction t rule: cell_induct)
  case (node t)
  show ?case
  proof (cases "cell_level t = k")
    case True
    then show ?thesis using node.prems(2) flatten_self [of t] by blast
  next
    case False
    then have lt: "cell_level t < k" using node.prems(3) by simp
    then have "c \<noteq> t" using node.prems(4) by auto
    with node.prems(2) obtain e where e: "is_child e t" "c \<in> set (flatten e)"
      by (subst (asm) in_flatten_iff) blast
    note ch = inv_child [OF node.prems(1) e(1)]
    have "cell_level e \<le> k" using ch(2) lt by simp
    from node.IH [OF e(1) ch(1) e(2) this node.prems(4)]
    obtain a where a: "a \<in> set (flatten e)" "cell_level a = k" "c \<in> set (flatten a)" by blast
    have "e \<in> set (flatten t)" using e(1) flatten_self [of e] by (subst in_flatten_iff) blast
    from flatten_trans [OF this a(1)] a(2,3) show ?thesis by blast
  qed
qed

section \<open>The loops of the emptiness construction\<close>

lemma fold_insert_if:
  "fold (\<lambda>x E. if P x then insert x E else E) xs E = E \<union> {x \<in> set xs. P x}"
  by (induction xs arbitrary: E) auto

lemma classify_partition_eq:
  "classify_partition intersect polygons max_level ic E =
     E \<union> {c \<in> set (flatten ic). cell_level c = max_level
            \<and> \<not> does_intersect intersect
                  (List.map_filter (\<lambda>p. intersect p (to_geojson ic)) polygons) c}"
  unfolding classify_partition_def Let_def fold_insert_if by auto

lemma fold_classify_mono:
  "E \<subseteq> fold (classify_partition intersect polygons max_level) ics E"
proof (induction ics arbitrary: E)
  case Nil
  then show ?case by simp
next
  case (Cons ic ics)
  have "E \<subseteq> classify_partition intersect polygons max_level ic E"
    by (auto simp: classify_partition_eq)
  also have "\<dots> \<subseteq> fold (classify_partition intersect polygons max_level) ics
                      (classify_partition intersect polygons max_level ic E)"
    by (rule Cons.IH)
  finally show ?case by simp
qed

lemma fold_classify_upper:
  "fold (classify_partition intersect polygons max_level) ics E
     \<subseteq> E \<union> {c. \<exists>ic \<in> set ics. c \<in> set (flatten ic)}"
proof (induction ics arbitrary: E)
  case Nil
  then show ?case by simp
next
  case (Cons ic ics)
  show ?case
    using Cons.IH [of "classify_partition intersect polygons max_level ic E"]
    by (auto simp: classify_partition_eq)
qed

lemma fold_classify_member:
  assumes "ic \<in> set ics" and "c \<in> set (flatten ic)" and "cell_level c = max_level"
    and "\<And>ps. \<not> does_intersect intersect ps c"
  shows "c \<in> fold (classify_partition intersect polygons max_level) ics E"
  using assms(1)
proof (induction ics arbitrary: E)
  case Nil
  then show ?case by simp
next
  case (Cons a ics)
  show ?case
  proof (cases "ic = a")
    case True
    have "c \<in> classify_partition intersect polygons max_level a E"
      using True assms(2,3,4) by (simp add: classify_partition_eq)
    then show ?thesis
      using fold_classify_mono
        [of "classify_partition intersect polygons max_level a E" intersect polygons max_level ics]
      by auto
  next
    case False
    then show ?thesis using Cons by simp
  qed
qed

lemma in_empties_mono: "in_empties ch E \<Longrightarrow> E \<subseteq> F \<Longrightarrow> in_empties ch F"
  by (auto simp: in_empties_def split: option.splits)

lemma fold_sweep_step:
  fixes Q :: "WebMercatorCell \<Rightarrow> WebMercatorCell set \<Rightarrow> bool"
  assumes "\<forall>x E F. Q x E \<longrightarrow> E \<subseteq> F \<longrightarrow> Q x F"
  shows "E \<subseteq> fold (\<lambda>x E. if Q x E then insert x E else E) xs E
     \<and> fold (\<lambda>x E. if Q x E then insert x E else E) xs E \<subseteq> E \<union> set xs
     \<and> (\<forall>x \<in> set xs. Q x E \<longrightarrow> x \<in> fold (\<lambda>x E. if Q x E then insert x E else E) xs E)"
proof (induction xs arbitrary: E)
  case Nil
  then show ?case by simp
next
  case (Cons a xs)
  let ?E1 = "if Q a E then insert a E else E"
  note IH = Cons.IH [of ?E1]
  have sub: "E \<subseteq> ?E1" by auto
  have "\<forall>x \<in> set (a # xs). Q x E \<longrightarrow> x \<in> fold (\<lambda>x E. if Q x E then insert x E else E) xs ?E1"
  proof (intro ballI impI)
    fix x assume x: "x \<in> set (a # xs)" and q: "Q x E"
    show "x \<in> fold (\<lambda>x E. if Q x E then insert x E else E) xs ?E1"
    proof (cases "x = a")
      case True
      then have "x \<in> ?E1" using q by simp
      then show ?thesis using IH by blast
    next
      case False
      then have "x \<in> set xs" using x by simp
      moreover have "Q x ?E1" using assms q sub by blast
      ultimately show ?thesis using IH by blast
    qed
  qed
  moreover have "E \<subseteq> fold (\<lambda>x E. if Q x E then insert x E else E) xs ?E1"
    using IH sub by blast
  moreover have "fold (\<lambda>x E. if Q x E then insert x E else E) xs ?E1 \<subseteq> E \<union> set (a # xs)"
    using IH by (auto split: if_splits)
  ultimately show ?case by simp
qed

lemma sweep_level_props:
  "E \<subseteq> sweep_level all_cells l E"
  "sweep_level all_cells l E \<subseteq> E \<union> {c \<in> set all_cells. cell_level c = l}"
  "c \<in> set all_cells \<Longrightarrow> cell_level c = l \<Longrightarrow> children_empty c E
     \<Longrightarrow> c \<in> sweep_level all_cells l E"
proof -
  have mono: "\<forall>x E F. children_empty x E \<longrightarrow> E \<subseteq> F \<longrightarrow> children_empty x F"
    unfolding children_empty_def using in_empties_mono by blast
  have eq: "sweep_level all_cells l E
    = fold (\<lambda>x E. if children_empty x E then insert x E else E)
        (filter (\<lambda>v. cell_level v = l) all_cells) E"
    by (simp add: sweep_level_def Let_def children_empty_def)
  note st = fold_sweep_step [of children_empty E "filter (\<lambda>v. cell_level v = l) all_cells",
      OF mono, folded eq]
  show "E \<subseteq> sweep_level all_cells l E" using st by blast
  show "sweep_level all_cells l E \<subseteq> E \<union> {c \<in> set all_cells. cell_level c = l}"
    using st by auto
  show "c \<in> set all_cells \<Longrightarrow> cell_level c = l \<Longrightarrow> children_empty c E
     \<Longrightarrow> c \<in> sweep_level all_cells l E"
    using st by auto
qed

lemma fold_sweep_props:
  assumes inv: "\<forall>c \<in> set all_cells. quadtree_inv c"
  shows "E \<subseteq> fold (sweep_level all_cells) ls E
    \<and> fold (sweep_level all_cells) ls E \<subseteq> E \<union> {c \<in> set all_cells. cell_level c \<in> set ls}
    \<and> (sorted_wrt (>) ls \<longrightarrow>
         (\<forall>c \<in> set all_cells. cell_level c \<in> set ls
            \<longrightarrow> children_empty c (fold (sweep_level all_cells) ls E)
            \<longrightarrow> c \<in> fold (sweep_level all_cells) ls E))"
proof (induction ls arbitrary: E)
  case Nil
  then show ?case by simp
next
  case (Cons l ls)
  let ?E1 = "sweep_level all_cells l E"
  let ?F = "fold (sweep_level all_cells) ls ?E1"
  note IH = Cons.IH [of ?E1]
  note sw = sweep_level_props [where E = E and all_cells = all_cells and l = l]
  have mono: "E \<subseteq> ?F" using IH sw(1) by blast
  have upper: "?F \<subseteq> E \<union> {c \<in> set all_cells. cell_level c \<in> set (l # ls)}"
    using IH sw(2) by auto
  have closed: "\<forall>c \<in> set all_cells. cell_level c \<in> set (l # ls)
            \<longrightarrow> children_empty c ?F \<longrightarrow> c \<in> ?F" if srt: "sorted_wrt (>) (l # ls)"
  proof (intro ballI impI)
    fix c assume c: "c \<in> set all_cells" and lv: "cell_level c \<in> set (l # ls)"
      and ch: "children_empty c ?F"
    from srt have tl_srt: "sorted_wrt (>) ls" and blw: "\<forall>l' \<in> set ls. l' < l" by auto
    show "c \<in> ?F"
    proof (cases "cell_level c = l")
      case False
      then have "cell_level c \<in> set ls" using lv by simp
      then show ?thesis using IH tl_srt c ch by blast
    next
      case True
      have bk: "d \<in> E" if d: "is_child d c" "d \<in> ?F" for d
      proof -
        have dl: "cell_level d = l + 1"
          using inv_child(2) [OF _ d(1)] inv c True by auto
        have "cell_level d \<notin> set ls" using blw dl by auto
        then have "d \<in> ?E1" using IH d(2) by auto
        then show "d \<in> E" using sw(2) dl by auto
      qed
      have "children_empty c E"
        using ch bk unfolding children_empty_def in_empties_def is_child_def
        by (auto split: option.splits)
      then have "c \<in> ?E1" using sw(3) [OF c True] by simp
      then show ?thesis using IH by blast
    qed
  qed
  show ?case using mono upper closed by simp
qed

lemma grid_props:
  obtains T where "generate_webmercator_grid L = Inr T" and "quadtree_inv T"
    and "cell_level T = 0" and "cell_i T = 0" and "cell_j T = 0"
proof -
  let ?r = "WebMercatorCell 0 0 0 (- (R * pi)) (R * pi) (R * pi) (- (R * pi)) None None None None"
  have "- (R * pi) < R * pi" using pi_gt_zero by (simp add: R_def)
  then have "quadtree_inv ?r" by simp
  then have "quadtree_inv (full_recursive_subdivide L ?r)"
    by (simp add: full_recursive_subdivide_def subdivide_preserves_inv)
  moreover have "cell_level (full_recursive_subdivide L ?r) = 0"
    "cell_i (full_recursive_subdivide L ?r) = 0" "cell_j (full_recursive_subdivide L ?r) = 0"
    by (simp_all add: full_recursive_subdivide_def)
  ultimately show ?thesis using that generate_webmercator_grid_eq by blast
qed

lemma parent_of_cell:
  assumes "quadtree_inv T" and "c \<in> set (flatten T)" and "cell_level T < cell_level c"
  obtains p where "p \<in> set (flatten T)" and "is_child c p"
    and "cell_level p = cell_level c - 1"
    and "cell_i p = cell_i c div 2" and "cell_j p = cell_j c div 2"
proof -
  have "c \<noteq> T" using assms(3) by auto
  from flatten_parent [OF assms(2) this] obtain p where p: "p \<in> set (flatten T)" "is_child c p"
    by blast
  note ch = inv_child [OF inv_sub [OF assms(1) p(1)] p(2)]
  have "cell_level p = cell_level c - 1" using ch(2) by simp
  moreover have "cell_i p = cell_i c div 2" using ch(3) by auto
  moreover have "cell_j p = cell_j c div 2" using ch(4) by auto
  ultimately show ?thesis using that p by blast
qed

lemma child_slot:
  assumes "quadtree_inv p" and "is_child d p"
  shows "cell_i d = 2 * cell_i p \<Longrightarrow> cell_j d = 2 * cell_j p \<Longrightarrow> cell_0 p = Some d"
    and "cell_i d = 2 * cell_i p + 1 \<Longrightarrow> cell_j d = 2 * cell_j p \<Longrightarrow> cell_1 p = Some d"
    and "cell_i d = 2 * cell_i p \<Longrightarrow> cell_j d = 2 * cell_j p + 1 \<Longrightarrow> cell_2 p = Some d"
    and "cell_i d = 2 * cell_i p + 1 \<Longrightarrow> cell_j d = 2 * cell_j p + 1 \<Longrightarrow> cell_3 p = Some d"
  using assms by (cases p; auto simp: is_child_def)+

text \<open>What \<open>generate_list_of_empty_tiles\<close> returns when it returns a set.\<close>

lemma generate_list_result:
  assumes "generate_list_of_empty_tiles intersect doc min_level max_level = Inr E"
  obtains fs polygons T where "features doc = Some fs" and "polygon_features fs = Inr polygons"
    and "generate_webmercator_grid max_level = Inr T"
    and "E = fold (sweep_level (filter (\<lambda>v. cell_level v \<ge> min_level) (flatten T)))
               (rev [min_level..max_level - 1])
               (fold (classify_partition intersect polygons max_level)
                  (filter (\<lambda>v. cell_level v = max min_level (max_level - 7))
                     (filter (\<lambda>v. cell_level v \<ge> min_level) (flatten T))) {})"
  using assms unfolding generate_list_of_empty_tiles_def Let_def
  by (auto split: option.splits sum.splits)

lemma empties_subset_grid:
  assumes "generate_list_of_empty_tiles intersect doc min_level max_level = Inr E"
    and "generate_webmercator_grid max_level = Inr T"
  shows "E \<subseteq> set (flatten T)"
proof -
  from generate_list_result [OF assms(1)] assms(2) obtain polygons where
    E: "E = fold (sweep_level (filter (\<lambda>v. cell_level v \<ge> min_level) (flatten T)))
               (rev [min_level..max_level - 1])
               (fold (classify_partition intersect polygons max_level)
                  (filter (\<lambda>v. cell_level v = max min_level (max_level - 7))
                     (filter (\<lambda>v. cell_level v \<ge> min_level) (flatten T))) {})"
    by (metis sum.inject(2))
  obtain T' where T': "generate_webmercator_grid max_level = Inr T'" "quadtree_inv T'"
    by (rule grid_props)
  then have inv: "quadtree_inv T" using assms(2) by simp
  let ?ac = "filter (\<lambda>v. cell_level v \<ge> min_level) (flatten T)"
  let ?ics = "filter (\<lambda>v. cell_level v = max min_level (max_level - 7)) ?ac"
  let ?E0 = "fold (classify_partition intersect polygons max_level) ?ics {}"
  have "?E0 \<subseteq> {c. \<exists>ic \<in> set ?ics. c \<in> set (flatten ic)}"
    using fold_classify_upper [of intersect polygons max_level ?ics "{}"] by simp
  then have E0: "?E0 \<subseteq> set (flatten T)" using flatten_trans by auto
  have "\<forall>c \<in> set ?ac. quadtree_inv c" using inv_sub [OF inv] by simp
  from fold_sweep_props [OF this, of ?E0 "rev [min_level..max_level - 1]"]
  have "E \<subseteq> ?E0 \<union> set ?ac" unfolding E by auto
  then show ?thesis using E0 by auto
qed

lemma empties_closed:
  assumes "generate_list_of_empty_tiles intersect doc min_level max_level = Inr E"
    and "generate_webmercator_grid max_level = Inr T"
    and "p \<in> set (flatten T)" and "min_level \<le> cell_level p" and "cell_level p < max_level"
    and "children_empty p E"
  shows "p \<in> E"
proof -
  from generate_list_result [OF assms(1)] assms(2) obtain polygons where
    E: "E = fold (sweep_level (filter (\<lambda>v. cell_level v \<ge> min_level) (flatten T)))
               (rev [min_level..max_level - 1])
               (fold (classify_partition intersect polygons max_level)
                  (filter (\<lambda>v. cell_level v = max min_level (max_level - 7))
                     (filter (\<lambda>v. cell_level v \<ge> min_level) (flatten T))) {})"
    by (metis sum.inject(2))
  obtain T' where T': "generate_webmercator_grid max_level = Inr T'" "quadtree_inv T'"
    by (rule grid_props)
  then have inv: "quadtree_inv T" using assms(2) by simp
  let ?ac = "filter (\<lambda>v. cell_level v \<ge> min_level) (flatten T)"
  let ?ics = "filter (\<lambda>v. cell_level v = max min_level (max_level - 7)) ?ac"
  let ?E0 = "fold (classify_partition intersect polygons max_level) ?ics {}"
  have invs: "\<forall>c \<in> set ?ac. quadtree_inv c" using inv_sub [OF inv] by simp
  have srt: "sorted_wrt (>) (rev [min_level..max_level - 1])"
    by (simp add: sorted_wrt_rev)
  have "p \<in> set ?ac" using assms(3,4) by simp
  moreover have "cell_level p \<in> set (rev [min_level..max_level - 1])"
    using assms(4,5) by simp
  ultimately show ?thesis
    using fold_sweep_props [OF invs, of ?E0 "rev [min_level..max_level - 1]"] srt assms(6)
    unfolding E by blast
qed

section \<open>The set of empty tiles\<close>

lemma member_with_address:
  assumes "a \<in> tile_address ` E"
  obtains c where "c \<in> E" and "tile_address c = a"
  using assms by auto

text \<open>
  Claim C1.  Let \<open>empties\<close> be the set that \<open>generate_list_of_empty_tiles\<close> returns for
  the levels \<open>min_level\<close> to \<open>max_level\<close>, for any landmass document and any intersection
  primitive.  For every address \<open>(l, i, j)\<close> with \<open>min_level \<le> l < max_level\<close>: if the
  addresses of its four children, \<open>(l + 1, 2i + {0,1}, 2j + {0,1})\<close>, all belong to cells
  of \<open>empties\<close>, then so does \<open>(l, i, j)\<close>.
\<close>

theorem emptiness_upward_closure:
  assumes "generate_list_of_empty_tiles intersect doc min_level max_level = Inr empties"
    and "min_level \<le> l" and "l < max_level"
    and "(l + 1, 2 * i, 2 * j) \<in> tile_address ` empties"
    and "(l + 1, 2 * i + 1, 2 * j) \<in> tile_address ` empties"
    and "(l + 1, 2 * i, 2 * j + 1) \<in> tile_address ` empties"
    and "(l + 1, 2 * i + 1, 2 * j + 1) \<in> tile_address ` empties"
  shows "(l, i, j) \<in> tile_address ` empties"
proof -
  obtain T where T: "generate_webmercator_grid max_level = Inr T" "quadtree_inv T"
    "cell_level T = 0" "cell_i T = 0" "cell_j T = 0"
    by (rule grid_props)
  note sub = empties_subset_grid [OF assms(1) T(1)]
  obtain c0 where c0: "c0 \<in> empties" "tile_address c0 = (l + 1, 2 * i, 2 * j)"
    using assms(4) by (rule member_with_address)
  obtain c1 where c1: "c1 \<in> empties" "tile_address c1 = (l + 1, 2 * i + 1, 2 * j)"
    using assms(5) by (rule member_with_address)
  obtain c2 where c2: "c2 \<in> empties" "tile_address c2 = (l + 1, 2 * i, 2 * j + 1)"
    using assms(6) by (rule member_with_address)
  obtain c3 where c3: "c3 \<in> empties" "tile_address c3 = (l + 1, 2 * i + 1, 2 * j + 1)"
    using assms(7) by (rule member_with_address)
  have in_T: "c0 \<in> set (flatten T)" "c1 \<in> set (flatten T)" "c2 \<in> set (flatten T)"
    "c3 \<in> set (flatten T)"
    using sub c0(1) c1(1) c2(1) c3(1) by auto
  have "cell_i c1 = 2 * i + 1" using c1(2) by (simp add: tile_address_def)
  then have "cell_i c1 \<noteq> cell_i T" unfolding T(4) by presburger
  then have "c1 \<noteq> T" by auto
  then have "cell_level c1 \<noteq> cell_level T"
    using flatten_same_level [OF T(2) in_T(2)] by blast
  moreover have "cell_level T \<le> cell_level c1" using flatten_range [OF T(2) in_T(2)] by simp
  ultimately have deep: "cell_level T < l + 1" using c1(2) by (simp add: tile_address_def)
  have lv: "cell_level T < cell_level c0" "cell_level T < cell_level c1"
    "cell_level T < cell_level c2" "cell_level T < cell_level c3"
    using deep c0(2) c1(2) c2(2) c3(2) by (simp_all add: tile_address_def)
  obtain p0 where p0: "p0 \<in> set (flatten T)" "is_child c0 p0" "tile_address p0 = (l, i, j)"
    using parent_of_cell [OF T(2) in_T(1) lv(1)] c0(2)
    by (auto simp: tile_address_def)
  obtain p1 where p1: "p1 \<in> set (flatten T)" "is_child c1 p1" "tile_address p1 = (l, i, j)"
    using parent_of_cell [OF T(2) in_T(2) lv(2)] c1(2)
    by (auto simp: tile_address_def)
  obtain p2 where p2: "p2 \<in> set (flatten T)" "is_child c2 p2" "tile_address p2 = (l, i, j)"
    using parent_of_cell [OF T(2) in_T(3) lv(3)] c2(2)
    by (auto simp: tile_address_def)
  obtain p3 where p3: "p3 \<in> set (flatten T)" "is_child c3 p3" "tile_address p3 = (l, i, j)"
    using parent_of_cell [OF T(2) in_T(4) lv(4)] c3(2)
    by (auto simp: tile_address_def)
  have same: "p1 = p0" "p2 = p0" "p3 = p0"
    using address_unique [OF T(2) p1(1) p0(1)] address_unique [OF T(2) p2(1) p0(1)]
      address_unique [OF T(2) p3(1) p0(1)] p0(3) p1(3) p2(3) p3(3) by simp_all
  have pinv: "quadtree_inv p0" by (rule inv_sub [OF T(2) p0(1)])
  have addr: "cell_level p0 = l" "cell_i p0 = i" "cell_j p0 = j"
    using p0(3) by (simp_all add: tile_address_def)
  have "cell_0 p0 = Some c0"
    using child_slot(1) [OF pinv p0(2)] c0(2) addr by (simp add: tile_address_def)
  moreover have "cell_1 p0 = Some c1"
    using child_slot(2) [OF pinv] p1(2) same c1(2) addr by (simp add: tile_address_def)
  moreover have "cell_2 p0 = Some c2"
    using child_slot(3) [OF pinv] p2(2) same c2(2) addr by (simp add: tile_address_def)
  moreover have "cell_3 p0 = Some c3"
    using child_slot(4) [OF pinv] p3(2) same c3(2) addr by (simp add: tile_address_def)
  ultimately have "children_empty p0 empties"
    using c0(1) c1(1) c2(1) c3(1) by (simp add: children_empty_def in_empties_def)
  then have "p0 \<in> empties"
    using empties_closed [OF assms(1) T(1) p0(1)] assms(2,3) addr(1) by simp
  then show ?thesis using p0(3) by force
qed

lemma grid_1:
  "generate_webmercator_grid 1 = Inr
     (WebMercatorCell 0 0 0 (- (R * pi)) (R * pi) (R * pi) (- (R * pi))
        (Some (WebMercatorCell 1 0 0 (- (R * pi)) 0 (R * pi) 0 None None None None))
        (Some (WebMercatorCell 1 1 0 0 (R * pi) (R * pi) 0 None None None None))
        (Some (WebMercatorCell 1 0 1 (- (R * pi)) 0 0 (- (R * pi)) None None None None))
        (Some (WebMercatorCell 1 1 1 0 (R * pi) 0 (- (R * pi)) None None None None)))"
  by (simp add: generate_webmercator_grid_eq full_recursive_subdivide_def subdivide_kid
      subdivide_at_max_depth kid_def candidate_def Let_def)

lemma no_intersection_empty: "\<not> does_intersect no_intersection ps c"
  by (simp add: does_intersect_def no_intersection_def Let_def list_ex_iff split: prod.splits)

lemma empties_without_land:
  "generate_list_of_empty_tiles no_intersection (GeoJSON (Some [])) 0 1 = Inr
     {WebMercatorCell 0 0 0 (- (R * pi)) (R * pi) (R * pi) (- (R * pi))
        (Some (WebMercatorCell 1 0 0 (- (R * pi)) 0 (R * pi) 0 None None None None))
        (Some (WebMercatorCell 1 1 0 0 (R * pi) (R * pi) 0 None None None None))
        (Some (WebMercatorCell 1 0 1 (- (R * pi)) 0 0 (- (R * pi)) None None None None))
        (Some (WebMercatorCell 1 1 1 0 (R * pi) 0 (- (R * pi)) None None None None)),
      WebMercatorCell 1 1 1 0 (R * pi) 0 (- (R * pi)) None None None None,
      WebMercatorCell 1 0 1 (- (R * pi)) 0 0 (- (R * pi)) None None None None,
      WebMercatorCell 1 1 0 0 (R * pi) (R * pi) 0 None None None None,
      WebMercatorCell 1 0 0 (- (R * pi)) 0 (R * pi) 0 None None None None}"
  by (simp add: generate_list_of_empty_tiles_def grid_1 Let_def classify_partition_def
      no_intersection_empty List.map_filter_simps sweep_level_def in_empties_def upto.simps)

theorem emptiness_upward_closure_witness:
  "\<exists>empties.
     generate_list_of_empty_tiles no_intersection (GeoJSON (Some [])) 0 1 = Inr empties
     \<and> (0 :: int) \<le> 0 \<and> (0 :: int) < 1
     \<and> (0 + 1, 2 * 0, 2 * 0) \<in> tile_address ` empties
     \<and> (0 + 1, 2 * 0 + 1, 2 * 0) \<in> tile_address ` empties
     \<and> (0 + 1, 2 * 0, 2 * 0 + 1) \<in> tile_address ` empties
     \<and> (0 + 1, 2 * 0 + 1, 2 * 0 + 1) \<in> tile_address ` empties
     \<and> (0, 0, 0) \<in> tile_address ` empties"
proof -
  obtain E where E: "generate_list_of_empty_tiles no_intersection (GeoJSON (Some [])) 0 1 = Inr E"
    and mem: "WebMercatorCell 1 0 0 (- (R * pi)) 0 (R * pi) 0 None None None None \<in> E"
      "WebMercatorCell 1 1 0 0 (R * pi) (R * pi) 0 None None None None \<in> E"
      "WebMercatorCell 1 0 1 (- (R * pi)) 0 0 (- (R * pi)) None None None None \<in> E"
      "WebMercatorCell 1 1 1 0 (R * pi) 0 (- (R * pi)) None None None None \<in> E"
    using empties_without_land by simp
  have c0: "(0 + 1, 2 * 0, 2 * 0) \<in> tile_address ` E"
    using imageI [OF mem(1), of tile_address] by (simp add: tile_address_def)
  have c1: "(0 + 1, 2 * 0 + 1, 2 * 0) \<in> tile_address ` E"
    using imageI [OF mem(2), of tile_address] by (simp add: tile_address_def)
  have c2: "(0 + 1, 2 * 0, 2 * 0 + 1) \<in> tile_address ` E"
    using imageI [OF mem(3), of tile_address] by (simp add: tile_address_def)
  have c3: "(0 + 1, 2 * 0 + 1, 2 * 0 + 1) \<in> tile_address ` E"
    using imageI [OF mem(4), of tile_address] by (simp add: tile_address_def)
  have top: "(0, 0, 0) \<in> tile_address ` E"
    by (rule emptiness_upward_closure [OF E _ _ c0 c1 c2 c3]) simp_all
  show ?thesis
    by (rule exI [of _ E]) (use E c0 c1 c2 c3 top in simp)
qed

lemma polar_no_intersection:
  assumes "60 < fst (invert_mercator (cell_x1 cell) (cell_y1 cell))
           \<or> fst (invert_mercator (cell_x0 cell) (cell_y0 cell)) < - 60"
  shows "\<not> does_intersect intersect polygons_clipped cell"
  using assms by (auto simp: does_intersect_def Let_def split: prod.splits)

lemma leaf_member:
  assumes res: "generate_list_of_empty_tiles intersect doc min_level max_level = Inr E"
    and "0 \<le> min_level" and "min_level \<le> max_level"
    and grid: "generate_webmercator_grid max_level = Inr T"
    and c: "c \<in> set (flatten T)" "cell_level c = max_level"
    and no: "\<And>ps. \<not> does_intersect intersect ps c"
  shows "c \<in> E"
proof -
  from generate_list_result [OF res] grid obtain polygons where
    E: "E = fold (sweep_level (filter (\<lambda>v. cell_level v \<ge> min_level) (flatten T)))
               (rev [min_level..max_level - 1])
               (fold (classify_partition intersect polygons max_level)
                  (filter (\<lambda>v. cell_level v = max min_level (max_level - 7))
                     (filter (\<lambda>v. cell_level v \<ge> min_level) (flatten T))) {})"
    by (metis sum.inject(2))
  obtain T' where T': "generate_webmercator_grid max_level = Inr T'" "quadtree_inv T'"
    "cell_level T' = 0"
    by (rule grid_props)
  then have inv: "quadtree_inv T" and lv0: "cell_level T = 0" using grid by simp_all
  let ?k = "max min_level (max_level - 7)"
  let ?ac = "filter (\<lambda>v. cell_level v \<ge> min_level) (flatten T)"
  let ?ics = "filter (\<lambda>v. cell_level v = ?k) ?ac"
  let ?E0 = "fold (classify_partition intersect polygons max_level) ?ics {}"
  have k: "cell_level T \<le> ?k" "?k \<le> cell_level c" "min_level \<le> ?k"
    using assms(2,3) c(2) lv0 by auto
  from flatten_ancestor [OF inv c(1) k(1,2)] obtain a where
    a: "a \<in> set (flatten T)" "cell_level a = ?k" "c \<in> set (flatten a)" by blast
  have "a \<in> set ?ics" using a(1,2) k(3) by simp
  from fold_classify_member [OF this a(3) c(2) no] have "c \<in> ?E0" .
  moreover have "\<forall>c \<in> set ?ac. quadtree_inv c" using inv_sub [OF inv] by simp
  from fold_sweep_props [OF this, of ?E0 "rev [min_level..max_level - 1]"]
  have "?E0 \<subseteq> E" unfolding E by blast
  ultimately show ?thesis by blast
qed

text \<open>
  Claim C6.  Let the levels satisfy \<open>0 \<le> min_level \<le> max_level\<close>.  Every cell of the
  highest level of the grid whose lower latitude is above 60 degrees, or whose upper
  latitude is below -60 degrees, is in the set that \<open>generate_list_of_empty_tiles\<close>
  returns, whatever the landmass document and whatever the intersection primitive
  answers; the test of the cell gives "no intersection" for every list of clipped
  polygons, so that the primitive has no part in it.
\<close>

theorem polar_cells_are_empty:
  assumes "generate_list_of_empty_tiles intersect doc min_level max_level = Inr empties"
    and "0 \<le> min_level" and "min_level \<le> max_level"
    and "generate_webmercator_grid max_level = Inr grid"
    and "cell \<in> set (flatten grid)" and "cell_level cell = max_level"
    and "60 < fst (invert_mercator (cell_x1 cell) (cell_y1 cell))
         \<or> fst (invert_mercator (cell_x0 cell) (cell_y0 cell)) < - 60"
  shows "cell \<in> empties
         \<and> (\<forall>polygons_clipped. \<not> does_intersect intersect polygons_clipped cell)"
  using leaf_member [OF assms(1-6)] polar_no_intersection [OF assms(7)] by blast

lemma exp_three_halves: "4 < exp (3 / 2 :: real)"
proof -
  have "1 + (3 / 4) + (3 / 4)\<^sup>2 / 2 \<le> exp (3 / 4 :: real)"
    by (rule exp_lower_Taylor_quadratic) simp
  then have a: "(65 / 32 :: real) \<le> exp (3 / 4)" by (simp add: power2_eq_square)
  have "exp (3 / 2 :: real) = exp (3 / 4) * exp (3 / 4)"
    by (simp add: exp_add [symmetric])
  moreover have "(65 / 32) * (65 / 32) \<le> exp (3 / 4 :: real) * exp (3 / 4)"
    using a by (intro mult_mono) auto
  ultimately show ?thesis by simp
qed

lemma pi_ge_three: "3 \<le> pi"
proof -
  have "sin (pi / 6) \<le> pi / 6" by (rule sin_x_le_x) simp
  then show ?thesis by (simp add: sin_30)
qed

lemma tan_75_less_4: "tan (pi / 4 + pi / 6) < 4"
proof -
  define s :: real where "s = sqrt 3"
  have "(5 / 3 :: real) < sqrt 3" by (rule real_less_rsqrt) (simp add: power2_eq_square)
  then have s: "5 / 3 < s" by (simp add: s_def)
  have c1: "cos (pi / 4) \<noteq> 0" and c2: "cos (pi / 6) \<noteq> 0"
    by (simp_all add: cos_45 cos_30)
  have "0 < cos (pi / 4 + pi / 6)"
    using pi_gt_zero by (intro cos_gt_zero_pi) linarith+
  then have c3: "cos (pi / 4 + pi / 6) \<noteq> 0" by simp
  have "tan (pi / 4 + pi / 6) = (1 + 1 / s) / (1 - 1 * (1 / s))"
    unfolding tan_add [OF c1 c2 c3] by (simp add: tan_45 tan_30 s_def)
  also have "\<dots> = (s + 1) / (s - 1)" using s by (simp add: field_simps)
  also have "\<dots> < 4" using s by (simp add: field_simps)
  finally show ?thesis .
qed

lemma latitude_of_half_height: "60 < fst (invert_mercator x (R * pi / 2))"
proof -
  define E :: real where "E = exp (pi / 2)"
  have "3 / 2 \<le> pi / 2" using pi_ge_three by simp
  then have "exp (3 / 2 :: real) \<le> E" unfolding E_def by simp
  then have E4: "4 < E" using exp_three_halves by linarith
  have rng: "- (pi / 2) < pi / 4 + pi / 6" "pi / 4 + pi / 6 < pi / 2"
    using pi_gt_zero by linarith+
  have "tan (pi / 4 + pi / 6) < E" using tan_75_less_4 E4 by linarith
  then have "arctan (tan (pi / 4 + pi / 6)) < arctan E" by (simp only: arctan_less_iff)
  then have big: "pi / 4 + pi / 6 < arctan E" by (simp only: arctan_tan [OF rng])
  have "fst (invert_mercator x (R * pi / 2)) = 360 * (arctan E - pi / 4) / pi"
    by (simp add: invert_mercator_def Let_def E_def R_def)
  moreover have "60 * pi < 360 * (arctan E - pi / 4)" using big by (simp add: algebra_simps)
  then have "60 < 360 * (arctan E - pi / 4) / pi"
    using pi_gt_zero by (simp add: pos_less_divide_eq)
  ultimately show ?thesis by simp
qed

theorem polar_cells_are_empty_witness:
  "\<exists>empties grid.
     generate_list_of_empty_tiles always_intersects
       (GeoJSON (Some [Feature (Some (Polygon (Coords [Coords
          [Pos 0 0, Pos 10 0, Pos 10 10, Pos 0 10, Pos 0 0]])))])) 0 2 = Inr empties
     \<and> (0 :: int) \<le> 0 \<and> (0 :: int) \<le> 2
     \<and> generate_webmercator_grid 2 = Inr grid
     \<and> WebMercatorCell 2 0 0 (- (R * pi)) (- (R * pi / 2)) (R * pi) (R * pi / 2)
          None None None None \<in> set (flatten grid)
     \<and> cell_level (WebMercatorCell 2 0 0 (- (R * pi)) (- (R * pi / 2)) (R * pi) (R * pi / 2)
          None None None None) = 2
     \<and> 60 < fst (invert_mercator
          (cell_x1 (WebMercatorCell 2 0 0 (- (R * pi)) (- (R * pi / 2)) (R * pi) (R * pi / 2)
             None None None None))
          (cell_y1 (WebMercatorCell 2 0 0 (- (R * pi)) (- (R * pi / 2)) (R * pi) (R * pi / 2)
             None None None None)))
     \<and> WebMercatorCell 2 0 0 (- (R * pi)) (- (R * pi / 2)) (R * pi) (R * pi / 2)
          None None None None \<in> empties"
proof -
  define cell where "cell = WebMercatorCell 2 0 0 (- (R * pi)) (- (R * pi / 2)) (R * pi)
    (R * pi / 2) None None None None"
  define doc where "doc = GeoJSON (Some [Feature (Some (Polygon (Coords [Coords
          [Pos 0 0, Pos 10 0, Pos 10 10, Pos 0 10, Pos 0 0]])))])"
  obtain grid where grid: "generate_webmercator_grid 2 = Inr grid"
    and full: "grid = full_recursive_subdivide 2
            (WebMercatorCell 0 0 0 (- (R * pi)) (R * pi) (R * pi) (- (R * pi))
               None None None None)"
    by (simp add: generate_webmercator_grid_eq)
  have mem: "cell \<in> set (flatten grid)"
    unfolding full cell_def
    by (simp add: full_recursive_subdivide_def subdivide_kid subdivide_at_max_depth kid_def
        candidate_def Let_def)
  obtain E where E: "generate_list_of_empty_tiles always_intersects doc 0 2 = Inr E"
    by (simp add: generate_list_of_empty_tiles_def doc_def generate_webmercator_grid_eq Let_def)
  have lv: "cell_level cell = 2" by (simp add: cell_def)
  have polar: "60 < fst (invert_mercator (cell_x1 cell) (cell_y1 cell))
               \<or> fst (invert_mercator (cell_x0 cell) (cell_y0 cell)) < - 60"
    using latitude_of_half_height [of "cell_x1 cell"] by (simp add: cell_def)
  have "cell \<in> E"
    using polar_cells_are_empty [OF E _ _ grid mem lv polar] by simp
  moreover have "60 < fst (invert_mercator (cell_x1 cell) (cell_y1 cell))"
    using latitude_of_half_height [of "cell_x1 cell"] by (simp add: cell_def)
  ultimately show ?thesis
    using E grid mem lv unfolding cell_def doc_def
    by (intro exI [of _ E] exI [of _ grid]) simp
qed

end
